theory Spec2Isabelle
  imports Complex_Main
begin

section \<open>Domain types (src/domain/types.ts)\<close>

text \<open>
  The zod enums \<open>BucketEnum\<close>, \<open>SideEnum\<close> and \<open>TransitionEnum\<close> are closed sets of
  string literals; they become datatypes. The optional fields \<open>fromBucket?\<close> and
  \<open>toBucket?\<close> of a line are \<open>bucket option\<close> (\<open>None\<close> is JavaScript's \<open>undefined\<close>).
\<close>

datatype bucket = Available | Pending | Escrow | Outflow

datatype side = Debit | Credit

datatype transition = Reserve | Lock | Finalize | Release | Revert

record amount_input =
  currency :: string
  amount :: string

record line_input =
  accountId :: string
  fromBucket :: "bucket option"
  toBucket :: "bucket option"
  line_side :: side
  line_amount :: amount_input
  line_transition :: transition

record journal_input =
  journalId :: string
  idempotencyKey :: string
  lines :: "line_input list"

text \<open>Every \<open>throw new Error(...)\<close> of the modelled code is one constructor.\<close>

datatype error =
    MissingFromBucket transition
  | MissingToBucket transition
  | InvalidFromBucket bucket transition
  | InvalidToBucket bucket transition
  | InvalidAmountString string
  | JournalNotBalanced
  | MixedCurrencies
  | NoLines
  | SchemaError
  | InvalidAmount string string
  | InsufficientFundsOrCurrencyMismatch string
  | NegativeBucket bucket string
  | ChaosFailure
  | DuplicateKey
  | MarkSentNotProcessing
  | ScheduleRetryNotFound
  | DispatchFailed

section \<open>Bucket state machine (src/domain/stateMachine.ts)\<close>

text \<open>
  A rule's \<open>from\<close> and \<open>to\<close> are typed \<open>Bucket | Bucket[]\<close>: a single bucket or an
  array of them. \<open>bucketMatches\<close> tests \<open>Array.isArray\<close> and then uses \<open>includes\<close> or
  \<open>===\<close>.
\<close>

datatype expected = One bucket | Many "bucket list"

record TransitionRule =
  rule_name :: transition
  rule_from :: expected
  rule_to :: expected

definition RULES :: "transition \<Rightarrow> TransitionRule" where
  "RULES t = (case t of
      Reserve \<Rightarrow> \<lparr>rule_name = Reserve, rule_from = One Available, rule_to = One Pending\<rparr>
    | Lock \<Rightarrow> \<lparr>rule_name = Lock, rule_from = Many [Pending, Available], rule_to = One Escrow\<rparr>
    | Finalize \<Rightarrow> \<lparr>rule_name = Finalize, rule_from = Many [Escrow], rule_to = One Outflow\<rparr>
    | Release \<Rightarrow> \<lparr>rule_name = Release, rule_from = One Pending, rule_to = One Available\<rparr>
    | Revert \<Rightarrow> \<lparr>rule_name = Revert, rule_from = One Escrow, rule_to = One Available\<rparr>)"

text \<open>
  \<open>getRule\<close> throws on an unknown transition; the table is total over the enum, so the
  branch cannot be taken for a typed line.
\<close>

definition getRule :: "transition \<Rightarrow> TransitionRule" where
  "getRule t = RULES t"

fun bucketMatches :: "bucket \<Rightarrow> expected \<Rightarrow> bool" where
  "bucketMatches val (Many bs) = (val \<in> set bs)"
| "bucketMatches val (One b) = (val = b)"

definition validateTransition :: "line_input \<Rightarrow> error + unit" where
  "validateTransition line =
     (let rule = getRule (line_transition line) in
      if fromBucket line = toBucket line then Inr ()
      else case fromBucket line of
          None \<Rightarrow> Inl (MissingFromBucket (rule_name rule))
        | Some f \<Rightarrow>
            (case toBucket line of
               None \<Rightarrow> Inl (MissingToBucket (rule_name rule))
             | Some t \<Rightarrow>
                 if \<not> bucketMatches f (rule_from rule)
                 then Inl (InvalidFromBucket f (rule_name rule))
                 else if \<not> bucketMatches t (rule_to rule)
                 then Inl (InvalidToBucket t (rule_name rule))
                 else Inr ()))"

text \<open>\<open>validateAllTransitions\<close>: the \<open>for\<close> loop stops at the first line that throws.\<close>

fun validateAllTransitions :: "line_input list \<Rightarrow> error + unit" where
  "validateAllTransitions [] = Inr ()"
| "validateAllTransitions (line # rest) =
     (case validateTransition line of
        Inl e \<Rightarrow> Inl e
      | Inr _ \<Rightarrow> validateAllTransitions rest)"

text \<open>
  The rules table as the specification words it: reserve is available to pending, lock is
  pending or available to escrow, finalize is escrow to outflow, release is pending to
  available, revert is escrow to available.
\<close>

fun spec_from_allowed :: "transition \<Rightarrow> bucket \<Rightarrow> bool" where
  "spec_from_allowed Reserve b = (b = Available)"
| "spec_from_allowed Lock b = (b = Pending \<or> b = Available)"
| "spec_from_allowed Finalize b = (b = Escrow)"
| "spec_from_allowed Release b = (b = Pending)"
| "spec_from_allowed Revert b = (b = Escrow)"

fun spec_to_allowed :: "transition \<Rightarrow> bucket \<Rightarrow> bool" where
  "spec_to_allowed Reserve b = (b = Pending)"
| "spec_to_allowed Lock b = (b = Escrow)"
| "spec_to_allowed Finalize b = (b = Outflow)"
| "spec_to_allowed Release b = (b = Available)"
| "spec_to_allowed Revert b = (b = Available)"

section \<open>Amount strings and money math (src/domain/types.ts)\<close>

text \<open>
  JavaScript strings are modelled as \<open>string\<close>; every character the regular expressions
  below can match is ASCII. \<open>\d\<close> without the \<open>u\<close> flag is exactly \<open>[0-9]\<close>, and \<open>$\<close>
  without the \<open>m\<close> flag is the end of the input.
\<close>

definition is_digit :: "char \<Rightarrow> bool" where
  "is_digit c = (48 \<le> (of_char c :: nat) \<and> (of_char c :: nat) \<le> 57)"

definition digit_val :: "char \<Rightarrow> nat" where
  "digit_val c = of_char c - 48"

definition digit_char :: "nat \<Rightarrow> char" where
  "digit_char d = char_of (48 + d)"

text \<open>The test \<open>/^\d+(?:\.\d{1,})?$/\<close> of \<open>normalizeAmountString\<close>.\<close>

definition re_decimal_any :: "string \<Rightarrow> bool" where
  "re_decimal_any s =
     (takeWhile is_digit s \<noteq> [] \<and>
      (case dropWhile is_digit s of
         [] \<Rightarrow> True
       | c # f \<Rightarrow> c = CHR ''.'' \<and> f \<noteq> [] \<and> list_all is_digit f))"

text \<open>The test \<open>/^\d+(?:\.\d{1,2})?$/\<close> of \<open>cents\<close> and of \<open>AmountSchema\<close>.\<close>

definition re_decimal_2 :: "string \<Rightarrow> bool" where
  "re_decimal_2 s =
     (takeWhile is_digit s \<noteq> [] \<and>
      (case dropWhile is_digit s of
         [] \<Rightarrow> True
       | c # f \<Rightarrow> c = CHR ''.'' \<and> f \<noteq> [] \<and> length f \<le> 2 \<and> list_all is_digit f))"

text \<open>The test \<open>/^0{1,2}$/\<close>.\<close>

definition re_zeros_1_2 :: "string \<Rightarrow> bool" where
  "re_zeros_1_2 f = (f = ''0'' \<or> f = ''00'')"

text \<open>\<open>String.prototype.split(".")\<close>: the pieces between the dots, never an empty array.\<close>

fun split_dot :: "string \<Rightarrow> string list" where
  "split_dot [] = [[]]"
| "split_dot (c # cs) =
     (if c = CHR ''.'' then [] # split_dot cs
      else (case split_dot cs of
              [] \<Rightarrow> [[c]]
            | p # ps \<Rightarrow> (c # p) # ps))"

text \<open>
  The destructuring \<open>const [int, frac = ""] = raw.split(".")\<close>: the first piece, and the
  second piece or the default \<open>""\<close>.
\<close>

definition int_frac :: "string \<Rightarrow> string \<times> string" where
  "int_frac raw =
     (case split_dot raw of
        [] \<Rightarrow> ([], [])
      | i # rest \<Rightarrow> (i, case rest of [] \<Rightarrow> [] | f # _ \<Rightarrow> f))"

text \<open>
  \<open>BigInt(s)\<close> on a string of decimal digits (the only strings the code passes to it,
  after the regular expression has matched), and \<open>String(n)\<close> on a non-negative bigint.
\<close>

definition BigInt_of :: "string \<Rightarrow> nat" where
  "BigInt_of s = foldl (\<lambda>n c. 10 * n + digit_val c) 0 s"

function String_of :: "nat \<Rightarrow> string" where
  "String_of n =
     (if n < 10 then [digit_char n]
      else String_of (n div 10) @ [digit_char (n mod 10)])"
  by pat_completeness auto
termination
  by (relation "measure (\<lambda>n. n)") auto

definition padEnd2 :: "string \<Rightarrow> string" where
  "padEnd2 f = f @ replicate (2 - length f) CHR ''0''"

text \<open>\<open>s.replace(/\.00$/, "")\<close>.\<close>

definition replace_dot00 :: "string \<Rightarrow> string" where
  "replace_dot00 s =
     (if 3 \<le> length s \<and> drop (length s - 3) s = ''.00'' then take (length s - 3) s else s)"

definition normalizeAmountString :: "string \<Rightarrow> string" where
  "normalizeAmountString raw =
     (if \<not> re_decimal_any raw then raw
      else
        let (int_part, frac) = int_frac raw;
            i = String_of (BigInt_of int_part)
        in if frac = [] then i
           else
             let f = take 2 frac
             in if f = [] \<or> re_zeros_1_2 f then i
                else replace_dot00 (i @ ''.'' @ padEnd2 f))"

definition cents :: "string \<Rightarrow> error + int" where
  "cents str =
     (let normalized = normalizeAmountString str
      in if \<not> re_decimal_2 normalized then Inl (InvalidAmountString str)
         else
           let (int_part, frac) = int_frac normalized;
               intPart = BigInt_of int_part * 100;
               fracPart = BigInt_of (take 2 (padEnd2 (if frac = [] then ''0'' else frac)))
           in Inr (int (intPart + fracPart)))"

text \<open>
  \<open>assertBalanced\<close>: the loop accumulates the running sum; a throwing \<open>cents\<close> leaves the loop.
\<close>

fun balance_loop :: "int \<Rightarrow> line_input list \<Rightarrow> error + int" where
  "balance_loop acc [] = Inr acc"
| "balance_loop acc (l # ls) =
     (case cents (amount (line_amount l)) of
        Inl e \<Rightarrow> Inl e
      | Inr v \<Rightarrow> balance_loop (acc + (if line_side l = Debit then v else - v)) ls)"

definition assertBalanced :: "line_input list \<Rightarrow> error + unit" where
  "assertBalanced ls =
     (case balance_loop 0 ls of
        Inl e \<Rightarrow> Inl e
      | Inr acc \<Rightarrow> if acc \<noteq> 0 then Inl JournalNotBalanced else Inr ())"

definition assertSingleCurrency :: "line_input list \<Rightarrow> error + string" where
  "assertSingleCurrency ls =
     (case ls of
        [] \<Rightarrow> Inr ''USD''
      | l0 # _ \<Rightarrow>
          let base = currency (line_amount l0)
          in if list_all (\<lambda>l. currency (line_amount l) = base) ls then Inr base
             else Inl MixedCurrencies)"

text \<open>
  The numeric value of a decimal string, used to state what the conversions preserve:
  the integer part plus the fraction digits over the matching power of ten.
\<close>

definition decimal_value :: "string \<Rightarrow> rat" where
  "decimal_value s =
     (let (int_part, frac) = int_frac s
      in of_nat (BigInt_of int_part) + of_nat (BigInt_of frac) / 10 ^ length frac)"



text \<open>
  The specification's \<open>toMinor\<close> in its own words: the amount as an exact integer number
  of minor units (cents), that is, one hundred times the decimal value. The balance check
  of the specification sums it with the sign of the side.
\<close>

definition minor_units :: "string \<Rightarrow> int" where
  "minor_units s = \<lfloor>decimal_value s * 100\<rfloor>"

definition signed_minor :: "line_input \<Rightarrow> int" where
  "signed_minor l =
     (if line_side l = Debit then minor_units (amount (line_amount l))
      else - minor_units (amount (line_amount l)))"

section \<open>Store documents (src/domain/docs.ts)\<close>

text \<open>
  Timestamps (\<open>Date\<close>) are integers, milliseconds since the epoch. JavaScript numbers in
  the account buckets are modelled by their exact values as rationals: sums and
  differences below are exact, where the code computes on IEEE doubles. An \<open>ObjectId\<close> is
  a natural number. Each collection is the list of its documents in insertion order.
\<close>

record Buckets =
  b_available :: rat
  b_pending :: rat
  b_escrow :: rat
  b_outflow :: rat

record AccountDoc =
  acc_id :: string
  acc_currency :: string
  acc_buckets :: Buckets
  acc_createdAt :: int
  acc_updatedAt :: "int option"
  acc_lastTxHint :: "string option"

record LedgerEntryDoc =
  le_journalId :: string
  le_lineNo :: nat
  le_accountId :: string
  le_fromBucket :: "bucket option"
  le_toBucket :: "bucket option"
  le_side :: side
  le_transition :: transition
  le_amount :: string
  le_currency :: string
  le_createdAt :: int

datatype journal_status = JournalPending | JournalPosted

record JournalDoc =
  jd_journalId :: string
  jd_idempotencyKey :: string
  jd_lines :: "line_input list"
  jd_status :: journal_status
  jd_createdAt :: int

datatype outbox_status = OutboxPending | OutboxProcessing | OutboxSent

record OutboxDoc =
  ob_id :: nat
  ob_journalId :: string
  ob_topic :: string
  ob_payload :: string
  ob_status :: outbox_status
  ob_attempts :: nat
  ob_nextAttemptAt :: int
  ob_createdAt :: int
  ob_updatedAt :: int

record Db =
  accounts :: "AccountDoc list"
  journals :: "JournalDoc list"
  ledger_entries :: "LedgerEntryDoc list"
  outbox :: "OutboxDoc list"

text \<open>
  \<open>collection.updateOne(filter, update)\<close>: the first document that matches the filter is
  updated; the result carries \<open>matchedCount\<close>, 0 or 1.
\<close>

fun updateOne :: "('a \<Rightarrow> bool) \<Rightarrow> ('a \<Rightarrow> 'a) \<Rightarrow> 'a list \<Rightarrow> nat \<times> 'a list" where
  "updateOne p u [] = (0, [])"
| "updateOne p u (d # ds) =
     (if p d then (1, u d # ds)
      else (case updateOne p u ds of (n, ds') \<Rightarrow> (n, d # ds')))"

section \<open>Outbox dispatcher (src/services/outboxService.ts)\<close>

text \<open>The filter of \<open>claimOne\<close>: status pending and \<open>nextAttemptAt \<le> now\<close>.\<close>

definition claimable :: "int \<Rightarrow> OutboxDoc \<Rightarrow> bool" where
  "claimable now d = (ob_status d = OutboxPending \<and> ob_nextAttemptAt d \<le> now)"

text \<open>The sort \<open>{ nextAttemptAt: 1, createdAt: 1, _id: 1 }\<close>, as a strict order.\<close>

definition sort_before :: "OutboxDoc \<Rightarrow> OutboxDoc \<Rightarrow> bool" where
  "sort_before a b =
     (ob_nextAttemptAt a < ob_nextAttemptAt b \<or>
      (ob_nextAttemptAt a = ob_nextAttemptAt b \<and>
       (ob_createdAt a < ob_createdAt b \<or>
        (ob_createdAt a = ob_createdAt b \<and> ob_id a < ob_id b))))"

fun first_in_sort :: "OutboxDoc list \<Rightarrow> OutboxDoc option" where
  "first_in_sort [] = None"
| "first_in_sort (d # ds) =
     (case first_in_sort ds of
        None \<Rightarrow> Some d
      | Some e \<Rightarrow> if sort_before e d then Some e else Some d)"

text \<open>
  \<open>claimOne\<close> is one \<open>findOneAndUpdate\<close> with \<open>returnDocument: "after"\<close>: the first
  claimable document in sort order becomes \<open>processing\<close>, and its new image is returned.
  The store keeps \<open>_id\<close> unique, so the document found is the one updated.
\<close>

definition claimOne :: "int \<Rightarrow> OutboxDoc list \<Rightarrow> OutboxDoc option \<times> OutboxDoc list" where
  "claimOne now obs =
     (case first_in_sort (filter (claimable now) obs) of
        None \<Rightarrow> (None, obs)
      | Some d \<Rightarrow>
          (Some (d\<lparr>ob_status := OutboxProcessing, ob_updatedAt := now\<rparr>),
           snd (updateOne (\<lambda>x. ob_id x = ob_id d \<and> claimable now x)
                  (\<lambda>x. x\<lparr>ob_status := OutboxProcessing, ob_updatedAt := now\<rparr>) obs)))"

definition markSent :: "int \<Rightarrow> OutboxDoc list \<Rightarrow> nat \<Rightarrow> error + OutboxDoc list" where
  "markSent now obs ident =
     (case updateOne (\<lambda>d. ob_id d = ident \<and> ob_status d = OutboxProcessing)
             (\<lambda>d. d\<lparr>ob_status := OutboxSent, ob_updatedAt := now,
                     ob_attempts := ob_attempts d + 1\<rparr>) obs of
        (n, obs') \<Rightarrow> if n \<noteq> 1 then Inl MarkSentNotProcessing else Inr obs')"

text \<open>
  The delay of \<open>scheduleRetry\<close>, \<open>Math.min(maxBackoffMs, base * Math.pow(2, attempts - 1))\<close>
  with \<open>base = 500\<close>; \<open>attempts\<close> is the count after the increment, at least 1.
\<close>

definition delayMs :: "nat \<Rightarrow> int \<Rightarrow> int" where
  "delayMs attempts maxBackoffMs = min maxBackoffMs (500 * 2 ^ (attempts - 1))"

text \<open>
  \<open>scheduleRetry\<close> filters on \<open>_id\<close> alone. \<open>now\<close> is the reading of both
  \<open>Date.now()\<close> and \<open>new Date()\<close>.
\<close>

definition scheduleRetry :: "int \<Rightarrow> OutboxDoc list \<Rightarrow> OutboxDoc \<Rightarrow> int \<Rightarrow> error + OutboxDoc list" where
  "scheduleRetry now obs doc maxBackoffMs =
     (let attempts = ob_attempts doc + 1;
          next = now + delayMs attempts maxBackoffMs
      in case updateOne (\<lambda>d. ob_id d = ob_id doc)
                (\<lambda>d. d\<lparr>ob_status := OutboxPending, ob_nextAttemptAt := next,
                        ob_updatedAt := now, ob_attempts := ob_attempts d + 1\<rparr>) obs of
           (n, obs') \<Rightarrow> if n \<noteq> 1 then Inl ScheduleRetryNotFound else Inr obs')"

text \<open>
  \<open>processOutbox\<close>, run by one worker on its own. \<open>dispatch\<close> tells whether the HTTP
  POST of a document succeeds; a failure is the error \<open>dispatchEvent\<close> throws. The
  \<open>try\<close> block covers the dispatch and \<open>markSent\<close>; its \<open>catch\<close> calls
  \<open>scheduleRetry\<close>, whose own error leaves the function.
\<close>

record OutboxProcessResult =
  attempted :: nat
  sent :: nat
  retried :: nat
  pending :: nat
  pendingRetries :: nat

fun processLoop ::
  "nat \<Rightarrow> (OutboxDoc \<Rightarrow> bool) \<Rightarrow> int \<Rightarrow> int \<Rightarrow> OutboxDoc list \<Rightarrow> nat \<times> nat \<times> nat
   \<Rightarrow> error + (nat \<times> nat \<times> nat) \<times> OutboxDoc list" where
  "processLoop 0 dispatch now maxBackoffMs obs counts = Inr (counts, obs)"
| "processLoop (Suc i) dispatch now maxBackoffMs obs (n_attempted, n_sent, n_retried) =
     (case claimOne now obs of
        (None, _) \<Rightarrow> Inr ((n_attempted, n_sent, n_retried), obs)
      | (Some doc, obs1) \<Rightarrow>
          (case (if dispatch doc then markSent now obs1 (ob_id doc) else Inl DispatchFailed) of
             Inr obs2 \<Rightarrow>
               processLoop i dispatch now maxBackoffMs obs2
                 (n_attempted + 1, n_sent + 1, n_retried)
           | Inl _ \<Rightarrow>
               (case scheduleRetry now obs1 doc maxBackoffMs of
                  Inl e \<Rightarrow> Inl e
                | Inr obs2 \<Rightarrow>
                    processLoop i dispatch now maxBackoffMs obs2
                      (n_attempted + 1, n_sent, n_retried + 1))))"

definition countQueue :: "int \<Rightarrow> OutboxDoc list \<Rightarrow> nat \<times> nat" where
  "countQueue now obs =
     (length (filter (\<lambda>d. ob_status d = OutboxPending \<and> ob_nextAttemptAt d \<le> now) obs),
      length (filter (\<lambda>d. ob_status d = OutboxPending \<and> now < ob_nextAttemptAt d) obs))"

definition processOutbox ::
  "nat \<Rightarrow> int \<Rightarrow> (OutboxDoc \<Rightarrow> bool) \<Rightarrow> int \<Rightarrow> OutboxDoc list
   \<Rightarrow> error + OutboxProcessResult \<times> OutboxDoc list" where
  "processOutbox maxBatch maxBackoffMs dispatch now obs =
     (case processLoop maxBatch dispatch now maxBackoffMs obs (0, 0, 0) of
        Inl e \<Rightarrow> Inl e
      | Inr ((n_attempted, n_sent, n_retried), obs') \<Rightarrow>
          (case countQueue now obs' of
             (n_pending, n_pendingRetries) \<Rightarrow>
               Inr (\<lparr>attempted = n_attempted, sent = n_sent, retried = n_retried,
                      pending = n_pending, pendingRetries = n_pendingRetries\<rparr>, obs')))"

text \<open>
  The base delay of the specification's backoff formula, in its words:
  \<open>min(base \<cdot> 2^min(attempts, 10), maxBackoffMs)\<close> with \<open>base = 500\<close>; the jitter it adds
  is not negative.
\<close>

definition spec_backoff_base :: "nat \<Rightarrow> int \<Rightarrow> int" where
  "spec_backoff_base attempts maxBackoffMs = min (500 * 2 ^ min attempts 10) maxBackoffMs"

section \<open>Request schema (src/domain/types.ts)\<close>

text \<open>
  \<open>JournalSchema.parse\<close> on an input that already has the field types of the schema:
  what remains to check are the non-empty strings, the two regular expressions and the
  minimum of two lines. The amount string is trimmed before its test and the trimmed
  string is what the parsed journal carries. \<open>trim\<close> is modelled on the ASCII white space.
\<close>

definition is_space :: "char \<Rightarrow> bool" where
  "is_space c = ((of_char c :: nat) \<in> set [9, 10, 11, 12, 13, 32])"

definition trim :: "string \<Rightarrow> string" where
  "trim s = rev (dropWhile is_space (rev (dropWhile is_space s)))"

definition isCurrencyCode :: "string \<Rightarrow> bool" where
  "isCurrencyCode code =
     (length code = 3 \<and> list_all (\<lambda>c. 65 \<le> (of_char c :: nat) \<and> (of_char c :: nat) \<le> 90) code)"

definition line_schema_ok :: "line_input \<Rightarrow> bool" where
  "line_schema_ok l =
     (accountId l \<noteq> [] \<and> isCurrencyCode (currency (line_amount l))
      \<and> re_decimal_2 (trim (amount (line_amount l))))"

definition line_parsed :: "line_input \<Rightarrow> line_input" where
  "line_parsed l = l\<lparr>line_amount := (line_amount l)\<lparr>amount := trim (amount (line_amount l))\<rparr>\<rparr>"

definition JournalSchema_parse :: "journal_input \<Rightarrow> error + journal_input" where
  "JournalSchema_parse input =
     (if journalId input = [] \<or> idempotencyKey input = [] \<or> length (lines input) < 2
         \<or> \<not> list_all line_schema_ok (lines input)
      then Inl SchemaError
      else Inr (input\<lparr>lines := map line_parsed (lines input)\<rparr>))"

section \<open>Journal posting (src/services/journalService.ts)\<close>

text \<open>
  What a call reads from outside the store: the clock (one reading \<open>env_now\<close> stands for
  every \<open>new Date()\<close> of the call) and whether \<open>chaosMaybe\<close> throws, which depends on
  \<open>CHAOS_PROB\<close> and on \<open>Math.random()\<close>. Log lines and the in-memory metric counters
  are not part of the store and are left out.
\<close>

record env =
  env_now :: int
  env_chaos :: bool

definition preflightValidate :: "journal_input \<Rightarrow> error + unit" where
  "preflightValidate parsed =
     (if lines parsed = [] then Inl NoLines
      else case validateAllTransitions (lines parsed) of
          Inl e \<Rightarrow> Inl e
        | Inr _ \<Rightarrow>
            (case assertSingleCurrency (lines parsed) of
               Inl e \<Rightarrow> Inl e
             | Inr _ \<Rightarrow> assertBalanced (lines parsed)))"

text \<open>
  \<open>Number(s)\<close> on the strings that reach \<open>applyLineAtomic\<close> through \<open>postJournal\<close>:
  digits with an optional fraction, whose value is the decimal value. Any other string is
  given \<open>None\<close> here, which the caller treats as not finite.
\<close>

definition Number_of :: "string \<Rightarrow> rat option" where
  "Number_of s = (if re_decimal_any s then Some (decimal_value s) else None)"

fun get_bucket :: "Buckets \<Rightarrow> bucket \<Rightarrow> rat" where
  "get_bucket b Available = b_available b"
| "get_bucket b Pending = b_pending b"
| "get_bucket b Escrow = b_escrow b"
| "get_bucket b Outflow = b_outflow b"

text \<open>
  The \<open>$inc\<close> document \<open>inc\<close> maps the keys \<open>buckets.<name>\<close> to deltas; a bucket
  without a key is left as it is.
\<close>

definition inc_of :: "bucket option \<Rightarrow> bucket option \<Rightarrow> rat \<Rightarrow> (bucket \<rightharpoonup> rat)" where
  "inc_of from_b to_b amtNum =
     (let inc0 = Map.empty;
          inc1 = (case from_b of
                    None \<Rightarrow> inc0
                  | Some f \<Rightarrow> inc0(f \<mapsto> (case inc0 f of None \<Rightarrow> 0 | Some v \<Rightarrow> v) - amtNum))
      in case to_b of
           None \<Rightarrow> inc1
         | Some t \<Rightarrow> inc1(t \<mapsto> (case inc1 t of None \<Rightarrow> 0 | Some v \<Rightarrow> v) + amtNum))"

definition inc_field :: "(bucket \<rightharpoonup> rat) \<Rightarrow> bucket \<Rightarrow> rat \<Rightarrow> rat" where
  "inc_field inc k v = (case inc k of None \<Rightarrow> v | Some d \<Rightarrow> v + d)"

definition apply_inc :: "(bucket \<rightharpoonup> rat) \<Rightarrow> Buckets \<Rightarrow> Buckets" where
  "apply_inc inc b =
     \<lparr>b_available = inc_field inc Available (b_available b),
      b_pending = inc_field inc Pending (b_pending b),
      b_escrow = inc_field inc Escrow (b_escrow b),
      b_outflow = inc_field inc Outflow (b_outflow b)\<rparr>"

definition SYSTEM_OVERDRAFT_ACCOUNTS :: "string list" where
  "SYSTEM_OVERDRAFT_ACCOUNTS = [''ESCROW_POOL'']"

text \<open>
  The upsert with \<open>$setOnInsert\<close> only: an existing account is left as it is, a missing
  one is inserted with all buckets zero.
\<close>

definition upsertAccount :: "int \<Rightarrow> string \<Rightarrow> string \<Rightarrow> AccountDoc list \<Rightarrow> AccountDoc list" where
  "upsertAccount now aid cur accs =
     (if list_ex (\<lambda>d. acc_id d = aid) accs then accs
      else accs @
        [\<lparr>acc_id = aid, acc_currency = cur,
          acc_buckets = \<lparr>b_available = 0, b_pending = 0, b_escrow = 0, b_outflow = 0\<rparr>,
          acc_createdAt = now, acc_updatedAt = Some now, acc_lastTxHint = None\<rparr>])"

text \<open>The predicate of the guarded update: \<open>_id\<close>, currency and, when guarded, the funds.\<close>

definition guard_predicate :: "line_input \<Rightarrow> rat \<Rightarrow> AccountDoc \<Rightarrow> bool" where
  "guard_predicate line amtNum d =
     (let shouldGuard = (fromBucket line \<noteq> None
                         \<and> accountId line \<notin> set SYSTEM_OVERDRAFT_ACCOUNTS)
      in acc_id d = accountId line
         \<and> acc_currency d = currency (line_amount line)
         \<and> (if shouldGuard
             then (case fromBucket line of
                     None \<Rightarrow> True
                   | Some f \<Rightarrow> amtNum \<le> get_bucket (acc_buckets d) f)
             else True))"

definition applyLineAtomic :: "int \<Rightarrow> Db \<Rightarrow> line_input \<Rightarrow> error + Db" where
  "applyLineAtomic now db line =
     (case Number_of (amount (line_amount line)) of
        None \<Rightarrow> Inl (InvalidAmount (accountId line) (amount (line_amount line)))
      | Some amtNum \<Rightarrow>
          if amtNum < 0 then Inl (InvalidAmount (accountId line) (amount (line_amount line)))
          else
            let accs1 = upsertAccount now (accountId line) (currency (line_amount line))
                          (accounts db)
            in if fromBucket line \<noteq> None \<and> toBucket line \<noteq> None
                  \<and> fromBucket line = toBucket line
               then Inr (db\<lparr>accounts :=
                          snd (updateOne (\<lambda>d. acc_id d = accountId line)
                                 (\<lambda>d. d\<lparr>acc_updatedAt := Some now,
                                         acc_lastTxHint := Some ''noop''\<rparr>) accs1)\<rparr>)
               else
                 let inc = inc_of (fromBucket line) (toBucket line) amtNum
                 in case updateOne (guard_predicate line amtNum)
                           (\<lambda>d. d\<lparr>acc_buckets := apply_inc inc (acc_buckets d),
                                   acc_updatedAt := Some now\<rparr>) accs1 of
                      (n, accs2) \<Rightarrow>
                        if n = 0
                        then Inl (InsufficientFundsOrCurrencyMismatch (accountId line))
                        else Inr (db\<lparr>accounts := accs2\<rparr>))"

definition appendLedgerEntry :: "int \<Rightarrow> Db \<Rightarrow> string \<Rightarrow> nat \<Rightarrow> line_input \<Rightarrow> Db" where
  "appendLedgerEntry now db jid lineNo line =
     db\<lparr>ledger_entries := ledger_entries db @
        [\<lparr>le_journalId = jid, le_lineNo = lineNo, le_accountId = accountId line,
          le_fromBucket = fromBucket line, le_toBucket = toBucket line,
          le_side = line_side line, le_transition = line_transition line,
          le_amount = amount (line_amount line), le_currency = currency (line_amount line),
          le_createdAt = now\<rparr>]\<rparr>"

text \<open>The store assigns the \<open>_id\<close> of an inserted outbox document: one not yet in use.\<close>

definition fresh_id :: "OutboxDoc list \<Rightarrow> nat" where
  "fresh_id obs = Suc (foldr max (map ob_id obs) 0)"

definition enqueueOutboxPosted :: "int \<Rightarrow> Db \<Rightarrow> string \<Rightarrow> Db" where
  "enqueueOutboxPosted now db jid =
     db\<lparr>outbox := outbox db @
        [\<lparr>ob_id = fresh_id (outbox db), ob_journalId = jid, ob_topic = ''LedgerEvent.Posted'',
          ob_payload = jid, ob_status = OutboxPending, ob_attempts = 0,
          ob_nextAttemptAt = now, ob_createdAt = now, ob_updatedAt = now\<rparr>]\<rparr>"

text \<open>
  \<open>insertOne\<close> into \<open>journals\<close>, which has the unique indexes \<open>uniq_idem\<close> and
  \<open>uniq_journal\<close>: a collision on either key is the duplicate-key error of the store.
\<close>

definition createJournalHeader :: "int \<Rightarrow> Db \<Rightarrow> journal_input \<Rightarrow> error + Db" where
  "createJournalHeader now db input =
     (if list_ex (\<lambda>j. jd_journalId j = journalId input
                       \<or> jd_idempotencyKey j = idempotencyKey input) (journals db)
      then Inl DuplicateKey
      else Inr (db\<lparr>journals := journals db @
              [\<lparr>jd_journalId = journalId input, jd_idempotencyKey = idempotencyKey input,
                jd_lines = lines input, jd_status = JournalPending, jd_createdAt = now\<rparr>]\<rparr>))"

definition markJournalPosted :: "Db \<Rightarrow> string \<Rightarrow> Db" where
  "markJournalPosted db jid =
     db\<lparr>journals := snd (updateOne (\<lambda>j. jd_journalId j = jid)
                           (\<lambda>j. j\<lparr>jd_status := JournalPosted\<rparr>) (journals db))\<rparr>"

definition findExistingJournal :: "Db \<Rightarrow> journal_input \<Rightarrow> JournalDoc option" where
  "findExistingJournal db input =
     find (\<lambda>j. jd_idempotencyKey j = idempotencyKey input \<or> jd_journalId j = journalId input)
       (journals db)"

definition bucket_keys :: "bucket list" where
  "bucket_keys = [Available, Pending, Escrow, Outflow]"

fun sweep :: "AccountDoc list \<Rightarrow> error + unit" where
  "sweep [] = Inr ()"
| "sweep (doc # docs) =
     (if acc_id doc \<in> set SYSTEM_OVERDRAFT_ACCOUNTS then sweep docs
      else case find (\<lambda>k. get_bucket (acc_buckets doc) k < 0) bucket_keys of
          Some k \<Rightarrow> Inl (NegativeBucket k (acc_id doc))
        | None \<Rightarrow> sweep docs)"

definition assertNoNegativeBuckets :: "Db \<Rightarrow> string list \<Rightarrow> error + unit" where
  "assertNoNegativeBuckets db accountIds =
     (if accountIds = [] then Inr ()
      else sweep (filter (\<lambda>d. acc_id d \<in> set accountIds) (accounts db)))"

text \<open>
  The \<open>for\<close> loop over the lines: \<open>lineNo\<close> is incremented before use, and
  \<open>affectedAccounts\<close> is a set kept in insertion order.
\<close>

fun applyLines ::
  "int \<Rightarrow> string \<Rightarrow> nat \<Rightarrow> string list \<Rightarrow> line_input list \<Rightarrow> Db \<Rightarrow> error + string list \<times> Db" where
  "applyLines now jid lineNo affected [] db = Inr (affected, db)"
| "applyLines now jid lineNo affected (line # rest) db =
     (case applyLineAtomic now db line of
        Inl e \<Rightarrow> Inl e
      | Inr db1 \<Rightarrow>
          applyLines now jid (lineNo + 1)
            (if accountId line \<in> set affected then affected else affected @ [accountId line])
            rest (appendLedgerEntry now db1 jid (lineNo + 1) line))"

text \<open>The callback given to \<open>session.withTransaction\<close>; it sets \<open>already\<close> on a hit.\<close>

definition postJournal_body :: "env \<Rightarrow> journal_input \<Rightarrow> Db \<Rightarrow> error + JournalDoc option \<times> Db" where
  "postJournal_body e parsed db =
     (case findExistingJournal db parsed of
        Some existing \<Rightarrow> Inr (Some existing, db)
      | None \<Rightarrow>
          (case createJournalHeader (env_now e) db parsed of
             Inl err \<Rightarrow> Inl err
           | Inr db1 \<Rightarrow>
               (case applyLines (env_now e) (journalId parsed) 0 [] (lines parsed) db1 of
                  Inl err \<Rightarrow> Inl err
                | Inr (affected, db2) \<Rightarrow>
                    (case assertNoNegativeBuckets db2 affected of
                       Inl err \<Rightarrow> Inl err
                     | Inr _ \<Rightarrow>
                         let db3 = enqueueOutboxPosted (env_now e) db2 (journalId parsed);
                             db4 = markJournalPosted db3 (journalId parsed)
                         in if env_chaos e then Inl ChaosFailure else Inr (None, db4)))))"

text \<open>
  \<open>session.withTransaction\<close>: the writes of the callback are committed together when it
  returns, and none of them is kept when it throws.
\<close>

definition withTransaction :: "(Db \<Rightarrow> error + 'a \<times> Db) \<Rightarrow> Db \<Rightarrow> (error + 'a) \<times> Db" where
  "withTransaction body db =
     (case body db of
        Inl err \<Rightarrow> (Inl err, db)
      | Inr (r, db') \<Rightarrow> (Inr r, db'))"

text \<open>
  \<open>postJournal\<close> returns the journal id of its result \<open>{ ok: true, journalId }\<close>, or the
  error it throws, together with the store it leaves.
\<close>

definition postJournal :: "env \<Rightarrow> Db \<Rightarrow> journal_input \<Rightarrow> (error + string) \<times> Db" where
  "postJournal e db input =
     (case JournalSchema_parse input of
        Inl err \<Rightarrow> (Inl err, db)
      | Inr parsed \<Rightarrow>
          (case preflightValidate parsed of
             Inl err \<Rightarrow> (Inl err, db)
           | Inr _ \<Rightarrow>
               (case withTransaction (postJournal_body e parsed) db of
                  (Inl err, db') \<Rightarrow> (Inl err, db')
                | (Inr already, db') \<Rightarrow>
                    (Inr (case already of
                            Some existing \<Rightarrow> jd_journalId existing
                          | None \<Rightarrow> journalId parsed), db'))))"

section \<open>Notions used to state the properties\<close>

text \<open>
  The invariant of the specification: every bucket of every account outside
  \<open>SYSTEM_OVERDRAFT_ACCOUNTS\<close> is at least zero.
\<close>

definition buckets_nonneg :: "Buckets \<Rightarrow> bool" where
  "buckets_nonneg b = list_all (\<lambda>k. 0 \<le> get_bucket b k) bucket_keys"

definition account_ok :: "AccountDoc \<Rightarrow> bool" where
  "account_ok d = (acc_id d \<in> set SYSTEM_OVERDRAFT_ACCOUNTS \<or> buckets_nonneg (acc_buckets d))"

definition no_negative_balances :: "Db \<Rightarrow> bool" where
  "no_negative_balances db = list_all account_ok (accounts db)"

text \<open>
  What a committed posting writes: the header (inserted as pending, then marked posted),
  one ledger entry per line with line numbers counted from 1, and one pending outbox item.
\<close>

definition new_header :: "int \<Rightarrow> journal_input \<Rightarrow> journal_status \<Rightarrow> JournalDoc" where
  "new_header now parsed st =
     \<lparr>jd_journalId = journalId parsed, jd_idempotencyKey = idempotencyKey parsed,
      jd_lines = lines parsed, jd_status = st, jd_createdAt = now\<rparr>"

definition new_outbox_item :: "int \<Rightarrow> OutboxDoc list \<Rightarrow> string \<Rightarrow> OutboxDoc" where
  "new_outbox_item now obs jid =
     \<lparr>ob_id = fresh_id obs, ob_journalId = jid, ob_topic = ''LedgerEvent.Posted'',
      ob_payload = jid, ob_status = OutboxPending, ob_attempts = 0,
      ob_nextAttemptAt = now, ob_createdAt = now, ob_updatedAt = now\<rparr>"

fun entries_for :: "int \<Rightarrow> string \<Rightarrow> nat \<Rightarrow> line_input list \<Rightarrow> LedgerEntryDoc list" where
  "entries_for now jid lineNo [] = []"
| "entries_for now jid lineNo (line # rest) =
     \<lparr>le_journalId = jid, le_lineNo = lineNo + 1, le_accountId = accountId line,
      le_fromBucket = fromBucket line, le_toBucket = toBucket line,
      le_side = line_side line, le_transition = line_transition line,
      le_amount = amount (line_amount line), le_currency = currency (line_amount line),
      le_createdAt = now\<rparr> # entries_for now jid (lineNo + 1) rest"


text \<open>
  Posting the same request again and again, each call with its own clock reading and
  chaos outcome: the results in order and the store left at the end.
\<close>

fun post_repeat :: "env list \<Rightarrow> Db \<Rightarrow> journal_input \<Rightarrow> (error + string) list \<times> Db" where
  "post_repeat [] db input = ([], db)"
| "post_repeat (e # es) db input =
     (case postJournal e db input of
        (r, db1) \<Rightarrow> (case post_repeat es db1 input of (rs, db2) \<Rightarrow> (r # rs, db2)))"

section \<open>Example data\<close>

text \<open>Concrete documents and requests, taken from the scenarios of the test suite.\<close>

definition example_item :: "outbox_status \<Rightarrow> nat \<Rightarrow> OutboxDoc" where
  "example_item st n =
     \<lparr>ob_id = 1, ob_journalId = ''J-OB-2'', ob_topic = ''LedgerEvent.Posted'',
      ob_payload = ''J-OB-2'', ob_status = st, ob_attempts = n,
      ob_nextAttemptAt = 0, ob_createdAt = 0, ob_updatedAt = 0\<rparr>"

definition example_account :: "string \<Rightarrow> rat \<Rightarrow> AccountDoc" where
  "example_account ident a =
     \<lparr>acc_id = ident, acc_currency = ''USD'',
      acc_buckets = \<lparr>b_available = a, b_pending = 0, b_escrow = 0, b_outflow = 0\<rparr>,
      acc_createdAt = 0, acc_updatedAt = None, acc_lastTxHint = None\<rparr>"

definition example_line ::
  "string \<Rightarrow> bucket \<Rightarrow> bucket \<Rightarrow> side \<Rightarrow> string \<Rightarrow> transition \<Rightarrow> line_input" where
  "example_line ident f t s amt tr =
     \<lparr>accountId = ident, fromBucket = Some f, toBucket = Some t, line_side = s,
      line_amount = \<lparr>currency = ''USD'', amount = amt\<rparr>, line_transition = tr\<rparr>"

definition example_db :: Db where
  "example_db =
     \<lparr>accounts = [example_account ''A'' 100, example_account ''B'' 100],
      journals = [], ledger_entries = [], outbox = []\<rparr>"

definition example_journal :: "string \<Rightarrow> string \<Rightarrow> string \<Rightarrow> string \<Rightarrow> journal_input" where
  "example_journal jid key a b =
     \<lparr>journalId = jid, idempotencyKey = key,
      lines = [example_line a Available Pending Debit ''10'' Reserve,
               example_line b Available Escrow Credit ''10'' Lock]\<rparr>"

definition example_env :: env where
  "example_env = \<lparr>env_now = 5, env_chaos = False\<rparr>"

text \<open>The store after the first posting of the example journal.\<close>

definition example_db_posted :: Db where
  "example_db_posted =
     snd (postJournal example_env example_db (example_journal ''J1'' ''k1'' ''A'' ''B''))"


section \<open>Properties of the state machine\<close>

lemma bucketMatches_from: "bucketMatches f (rule_from (getRule t)) = spec_from_allowed t f"
  by (cases t) (auto simp: getRule_def RULES_def)

lemma bucketMatches_to: "bucketMatches b (rule_to (getRule t)) = spec_to_allowed t b"
  by (cases t) (simp_all add: getRule_def RULES_def)

lemma rule_name_getRule: "rule_name (getRule t) = t"
  by (cases t) (simp_all add: getRule_def RULES_def)

text \<open>
  Claim C6. \<open>validateTransition\<close> accepts a line exactly when its two buckets are equal
  (the no-op line, whatever the transition), or both are present and agree with the rules
  table: reserve available to pending, lock pending or available to escrow, finalize
  escrow to outflow, release pending to available, revert escrow to available. Every other
  line is rejected with the error that names the offending field: a missing
  \<open>fromBucket\<close> first, then a missing \<open>toBucket\<close>, then an invalid \<open>fromBucket\<close>, then
  an invalid \<open>toBucket\<close>.
\<close>

theorem validateTransition_rules:
  "(validateTransition l = Inr () \<longleftrightarrow>
      (fromBucket l = toBucket l \<or>
       (\<exists>f t. fromBucket l = Some f \<and> toBucket l = Some t \<and>
          spec_from_allowed (line_transition l) f \<and> spec_to_allowed (line_transition l) t)))
   \<and> (fromBucket l \<noteq> toBucket l \<longrightarrow>
        validateTransition l =
          (case fromBucket l of
             None \<Rightarrow> Inl (MissingFromBucket (line_transition l))
           | Some f \<Rightarrow>
              (case toBucket l of
                 None \<Rightarrow> Inl (MissingToBucket (line_transition l))
               | Some t \<Rightarrow>
                  if \<not> spec_from_allowed (line_transition l) f
                  then Inl (InvalidFromBucket f (line_transition l))
                  else if \<not> spec_to_allowed (line_transition l) t
                  then Inl (InvalidToBucket t (line_transition l))
                  else Inr ())))"
  by (auto simp: validateTransition_def Let_def bucketMatches_from bucketMatches_to
      rule_name_getRule split: option.splits)

theorem validateTransition_rules_witness:
  "validateTransition \<lparr>accountId = ''X'', fromBucket = Some Pending, toBucket = Some Escrow,
      line_side = Debit, line_amount = \<lparr>currency = ''USD'', amount = ''1''\<rparr>,
      line_transition = Reserve\<rparr> = Inl (InvalidFromBucket Pending Reserve)
   \<and> validateTransition \<lparr>accountId = ''X'', fromBucket = Some Available, toBucket = Some Escrow,
      line_side = Credit, line_amount = \<lparr>currency = ''USD'', amount = ''1''\<rparr>,
      line_transition = Lock\<rparr> = Inr ()"
  using validateTransition_rules [of "\<lparr>accountId = ''X'', fromBucket = Some Pending, toBucket = Some Escrow,
      line_side = Debit, line_amount = \<lparr>currency = ''USD'', amount = ''1''\<rparr>,
      line_transition = Reserve\<rparr>"]
    validateTransition_rules [of "\<lparr>accountId = ''X'', fromBucket = Some Available, toBucket = Some Escrow,
      line_side = Credit, line_amount = \<lparr>currency = ''USD'', amount = ''1''\<rparr>,
      line_transition = Lock\<rparr>"]
  by simp

text \<open>
  Claim C10. A line with neither \<open>fromBucket\<close> nor \<open>toBucket\<close> is accepted for every
  transition: the equality test \<open>fromBucket === toBucket\<close> holds of two absent values
  and returns before the presence checks run.
\<close>

theorem validateTransition_bucketless:
  "fromBucket l = None \<Longrightarrow> toBucket l = None \<Longrightarrow> validateTransition l = Inr ()"
  by (simp add: validateTransition_def Let_def)

theorem validateTransition_bucketless_witness:
  "validateTransition \<lparr>accountId = ''X'', fromBucket = None, toBucket = None,
      line_side = Debit, line_amount = \<lparr>currency = ''USD'', amount = ''1''\<rparr>,
      line_transition = Finalize\<rparr> = Inr ()"
  using validateTransition_bucketless [of "\<lparr>accountId = ''X'', fromBucket = None, toBucket = None,
      line_side = Debit, line_amount = \<lparr>currency = ''USD'', amount = ''1''\<rparr>,
      line_transition = Finalize\<rparr>"]
  by simp

section \<open>Properties of the store primitives\<close>

lemma updateOne_find:
  "updateOne (\<lambda>d. key d = k) u xs = (n, xs') \<Longrightarrow> (\<And>d. key (u d) = key d) \<Longrightarrow>
   find (\<lambda>d. key d = k) xs' = map_option u (find (\<lambda>d. key d = k) xs) \<and>
   (n = 1 \<longleftrightarrow> find (\<lambda>d. key d = k) xs \<noteq> None)"
  by (induction xs arbitrary: n xs') (auto split: prod.splits if_splits)

lemma updateOne_keeps: "d \<in> set xs \<Longrightarrow> \<not> p d \<Longrightarrow> d \<in> set (snd (updateOne p u xs))"
  by (induction xs) (auto split: prod.splits)

lemma updateOne_all:
  "list_all Q xs \<Longrightarrow> (\<And>d. p d \<Longrightarrow> Q d \<Longrightarrow> Q (u d)) \<Longrightarrow> list_all Q (snd (updateOne p u xs))"
  by (induction xs) (auto split: prod.splits)

lemma updateOne_none: "\<not> list_ex p xs \<Longrightarrow> updateOne p u xs = (0, xs)"
  by (induction xs) auto

lemma updateOne_append_new:
  "\<not> list_ex p xs \<Longrightarrow> p d \<Longrightarrow> updateOne p u (xs @ [d]) = (1, xs @ [u d])"
  by (induction xs) auto

section \<open>Properties of the amount conversions\<close>

lemma is_digit_digit_char: "d < 10 \<Longrightarrow> is_digit (digit_char d)"
  by (simp add: is_digit_def digit_char_def)

lemma digit_val_digit_char: "d < 10 \<Longrightarrow> digit_val (digit_char d) = d"
  by (simp add: digit_val_def digit_char_def)

lemma digit_char_digit_val: "is_digit c \<Longrightarrow> digit_char (digit_val c) = c"
  by (simp add: is_digit_def digit_val_def digit_char_def)

lemma digit_val_lt: "is_digit c \<Longrightarrow> digit_val c < 10"
  unfolding is_digit_def digit_val_def by linarith

lemma is_digit_not_dot: "is_digit c \<Longrightarrow> c \<noteq> CHR ''.''"
  by (auto simp: is_digit_def)


lemma digits_no_dot: "list_all is_digit s \<Longrightarrow> CHR ''.'' \<notin> set s"
  by (auto simp: list_all_iff dest: is_digit_not_dot)

lemma split_dot_nodot: "CHR ''.'' \<notin> set s \<Longrightarrow> split_dot s = [s]"
  by (induction s) auto

lemma split_dot_append: "CHR ''.'' \<notin> set i \<Longrightarrow> split_dot (i @ CHR ''.'' # f) = i # split_dot f"
  by (induction i) auto

lemma int_frac_digits: "list_all is_digit i \<Longrightarrow> int_frac i = (i, [])"
  by (simp add: int_frac_def split_dot_nodot digits_no_dot)

lemma int_frac_dotted:
  "list_all is_digit i \<Longrightarrow> list_all is_digit f \<Longrightarrow> int_frac (i @ CHR ''.'' # f) = (i, f)"
  by (simp add: int_frac_def split_dot_nodot split_dot_append digits_no_dot)

lemma takeWhile_digits_dotted:
  "list_all is_digit i \<Longrightarrow> takeWhile is_digit (i @ CHR ''.'' # f) = i"
  by (induction i) (auto simp: is_digit_def)

lemma dropWhile_digits_dotted:
  "list_all is_digit i \<Longrightarrow> dropWhile is_digit (i @ CHR ''.'' # f) = CHR ''.'' # f"
  by (induction i) (auto simp: is_digit_def)

lemma takeWhile_digits: "list_all is_digit i \<Longrightarrow> takeWhile is_digit i = i"
  by (induction i) auto

lemma dropWhile_digits: "list_all is_digit i \<Longrightarrow> dropWhile is_digit i = []"
  by (induction i) auto

lemma re_decimal_any_digits: "i \<noteq> [] \<Longrightarrow> list_all is_digit i \<Longrightarrow> re_decimal_any i"
  by (simp add: re_decimal_any_def takeWhile_digits dropWhile_digits)

lemma re_decimal_any_dotted:
  "i \<noteq> [] \<Longrightarrow> list_all is_digit i \<Longrightarrow> f \<noteq> [] \<Longrightarrow> list_all is_digit f
   \<Longrightarrow> re_decimal_any (i @ CHR ''.'' # f)"
  by (simp add: re_decimal_any_def takeWhile_digits_dotted dropWhile_digits_dotted)

lemma re_decimal_2_digits: "i \<noteq> [] \<Longrightarrow> list_all is_digit i \<Longrightarrow> re_decimal_2 i"
  by (simp add: re_decimal_2_def takeWhile_digits dropWhile_digits)

lemma re_decimal_2_dotted:
  "i \<noteq> [] \<Longrightarrow> list_all is_digit i \<Longrightarrow> f \<noteq> [] \<Longrightarrow> length f \<le> 2 \<Longrightarrow> list_all is_digit f
   \<Longrightarrow> re_decimal_2 (i @ CHR ''.'' # f)"
  by (simp add: re_decimal_2_def takeWhile_digits_dotted dropWhile_digits_dotted)

lemma re_decimal_any_cases:
  assumes "re_decimal_any s"
  obtains (whole) "s \<noteq> []" "list_all is_digit s"
  | (dotted) i f where "s = i @ CHR ''.'' # f" "i \<noteq> []" "list_all is_digit i"
      "f \<noteq> []" "list_all is_digit f"
proof (cases "dropWhile is_digit s")
  case Nil
  then have "takeWhile is_digit s = s"
    by (metis append_Nil2 takeWhile_dropWhile_id)
  with assms have "s \<noteq> []" "list_all is_digit s"
    by (auto simp: re_decimal_any_def list_all_iff dest: set_takeWhileD)
  then show ?thesis by (rule whole)
next
  case (Cons c f)
  have s: "s = takeWhile is_digit s @ c # f"
    using Cons by (metis takeWhile_dropWhile_id)
  have d: "list_all is_digit (takeWhile is_digit s)"
    by (auto simp: list_all_iff dest: set_takeWhileD)
  from assms Cons have "c = CHR ''.''" "f \<noteq> []" "list_all is_digit f" "takeWhile is_digit s \<noteq> []"
    by (auto simp: re_decimal_any_def)
  with s d show ?thesis by (intro dotted[of "takeWhile is_digit s" f]) auto
qed

lemma re_decimal_2_cases:
  assumes "re_decimal_2 s"
  obtains (whole) "s \<noteq> []" "list_all is_digit s"
  | (dotted) i f where "s = i @ CHR ''.'' # f" "i \<noteq> []" "list_all is_digit i"
      "f \<noteq> []" "length f \<le> 2" "list_all is_digit f"
proof (cases "dropWhile is_digit s")
  case Nil
  then have "takeWhile is_digit s = s"
    by (metis append_Nil2 takeWhile_dropWhile_id)
  with assms have "s \<noteq> []" "list_all is_digit s"
    by (auto simp: re_decimal_2_def list_all_iff dest: set_takeWhileD)
  then show ?thesis by (rule whole)
next
  case (Cons c f)
  have s: "s = takeWhile is_digit s @ c # f"
    using Cons by (metis takeWhile_dropWhile_id)
  have d: "list_all is_digit (takeWhile is_digit s)"
    by (auto simp: list_all_iff dest: set_takeWhileD)
  from assms Cons have "c = CHR ''.''" "f \<noteq> []" "list_all is_digit f" "length f \<le> 2"
      "takeWhile is_digit s \<noteq> []"
    by (auto simp: re_decimal_2_def)
  with s d show ?thesis by (intro dotted[of "takeWhile is_digit s" f]) auto
qed

lemma re_decimal_2_any: "re_decimal_2 s \<Longrightarrow> re_decimal_any s"
  by (erule re_decimal_2_cases) (auto intro: re_decimal_any_digits re_decimal_any_dotted)

declare String_of.simps [simp del]

lemma BigInt_of_Nil: "BigInt_of [] = 0"
  by (simp add: BigInt_of_def)

lemma BigInt_of_snoc: "BigInt_of (s @ [c]) = 10 * BigInt_of s + digit_val c"
  by (simp add: BigInt_of_def)

lemma BigInt_of_single: "BigInt_of [c] = digit_val c"
  by (simp add: BigInt_of_def)

lemma BigInt_of_two: "BigInt_of [c, d] = 10 * digit_val c + digit_val d"
  by (simp add: BigInt_of_def)

lemma String_of_digits: "list_all is_digit (String_of n)"
proof (induction n rule: String_of.induct)
  case (1 n)
  show ?case
  proof (cases "n < 10")
    case True
    then show ?thesis by (subst String_of.simps) (simp add: is_digit_digit_char)
  next
    case False
    with 1 show ?thesis by (subst String_of.simps) (simp add: is_digit_digit_char)
  qed
qed

lemma String_of_nonempty: "String_of n \<noteq> []"
  by (subst String_of.simps) simp

lemma BigInt_of_String_of: "BigInt_of (String_of n) = n"
proof (induction n rule: String_of.induct)
  case (1 n)
  show ?case
  proof (cases "n < 10")
    case True
    then show ?thesis
      by (subst String_of.simps) (simp add: BigInt_of_single digit_val_digit_char)
  next
    case False
    with 1 have "BigInt_of (String_of (n div 10)) = n div 10" by simp
    with False show ?thesis
      by (subst String_of.simps) (simp add: BigInt_of_snoc digit_val_digit_char)
  qed
qed





lemma decimal_value_digits: "list_all is_digit i \<Longrightarrow> decimal_value i = of_nat (BigInt_of i)"
  by (simp add: decimal_value_def int_frac_digits BigInt_of_Nil)

lemma decimal_value_dotted:
  "list_all is_digit i \<Longrightarrow> list_all is_digit f \<Longrightarrow>
   decimal_value (i @ CHR ''.'' # f) = of_nat (BigInt_of i) + of_nat (BigInt_of f) / 10 ^ length f"
  by (simp add: decimal_value_def int_frac_dotted)

lemma normalize_digits:
  "i \<noteq> [] \<Longrightarrow> list_all is_digit i \<Longrightarrow> normalizeAmountString i = String_of (BigInt_of i)"
  by (simp add: normalizeAmountString_def re_decimal_any_digits int_frac_digits)

lemma replace_dot00_keep:
  "length g = 2 \<Longrightarrow> g \<noteq> ''00'' \<Longrightarrow> replace_dot00 (i @ CHR ''.'' # g) = i @ CHR ''.'' # g"
  by (simp add: replace_dot00_def)

lemma normalize_dotted:
  assumes "i \<noteq> []" "list_all is_digit i" "f \<noteq> []" "list_all is_digit f"
  shows "normalizeAmountString (i @ CHR ''.'' # f) =
     (if re_zeros_1_2 (take 2 f) then String_of (BigInt_of i)
      else String_of (BigInt_of i) @ CHR ''.'' # padEnd2 (take 2 f))"
proof -
  have len: "length (padEnd2 (take 2 f)) = 2"
    using assms(3) by (cases f) (auto simp: padEnd2_def)
  have nz: "\<not> re_zeros_1_2 (take 2 f) \<Longrightarrow> padEnd2 (take 2 f) \<noteq> ''00''"
    using assms(3) by (cases f; cases "tl f") (auto simp: padEnd2_def re_zeros_1_2_def)
  show ?thesis
    using assms len nz
    by (simp add: normalizeAmountString_def re_decimal_any_dotted int_frac_dotted
        replace_dot00_keep)
qed

lemma zeros_value: "re_zeros_1_2 f \<Longrightarrow> BigInt_of f = 0"
  by (auto simp: re_zeros_1_2_def BigInt_of_def digit_val_def)

lemma padEnd2_short: "f \<noteq> [] \<Longrightarrow> length f \<le> 2 \<Longrightarrow> length (padEnd2 f) = 2"
  by (cases f) (auto simp: padEnd2_def)


lemma padEnd2_digits: "list_all is_digit f \<Longrightarrow> list_all is_digit (padEnd2 f)"
  by (auto simp: padEnd2_def list_all_iff is_digit_def)


lemma padded_value:
  assumes "f \<noteq> []" "length f \<le> 2"
  shows "(of_nat (BigInt_of (padEnd2 f)) :: rat) = 100 * of_nat (BigInt_of f) / 10 ^ length f"
proof -
  from assms consider d where "f = [d]" | d e where "f = [d, e]"
    by (cases f; cases "tl f") auto
  then show ?thesis
  proof cases
    case 1
    then show ?thesis
      by (simp add: padEnd2_def BigInt_of_two BigInt_of_single digit_val_def)
  next
    case 2
    then show ?thesis
      by (simp add: padEnd2_def BigInt_of_two)
  qed
qed

text \<open>The normal form of a well-formed amount, case by case.\<close>

lemma normalize_well_formed:
  assumes "re_decimal_2 s"
  obtains (plain) i where "list_all is_digit i" "i \<noteq> []"
      "normalizeAmountString s = String_of (BigInt_of i)"
      "decimal_value s = of_nat (BigInt_of i)"
  | (frac) i f where "list_all is_digit i" "i \<noteq> []" "list_all is_digit f" "f \<noteq> []"
      "length f \<le> 2" "\<not> re_zeros_1_2 f"
      "normalizeAmountString s = String_of (BigInt_of i) @ CHR ''.'' # padEnd2 f"
      "decimal_value s = of_nat (BigInt_of i) + of_nat (BigInt_of f) / 10 ^ length f"
  using assms
proof (cases rule: re_decimal_2_cases)
  case whole
  then show ?thesis
    by (intro plain[of s]) (simp_all add: normalize_digits decimal_value_digits)
next
  case (dotted i f)
  show ?thesis
  proof (cases "re_zeros_1_2 f")
    case True
    with dotted show ?thesis
      by (intro plain[of i]) (simp_all add: normalize_dotted decimal_value_dotted zeros_value)
  next
    case False
    with dotted show ?thesis
      by (intro frac[of i f]) (simp_all add: normalize_dotted decimal_value_dotted)
  qed
qed



lemma cents_value:
  assumes "re_decimal_2 s"
  shows "\<exists>c. cents s = Inr c \<and> (of_int c :: rat) = decimal_value s * 100"
  using assms
proof (cases rule: normalize_well_formed)
  case (plain i)
  then show ?thesis
    by (simp add: cents_def Let_def re_decimal_2_digits String_of_digits String_of_nonempty
        int_frac_digits BigInt_of_String_of padEnd2_def BigInt_of_two digit_val_def)
next
  case (frac i f)
  define g where "g = padEnd2 f"
  have g: "length g = 2" "list_all is_digit g" "g \<noteq> []"
    using frac padEnd2_short[of f] by (auto simp: g_def padEnd2_digits)
  have tk: "take 2 (padEnd2 g) = g"
    using g by (simp add: padEnd2_def)
  have gv: "(of_nat (BigInt_of g) :: rat) = 100 * of_nat (BigInt_of f) / 10 ^ length f"
    using frac by (simp add: g_def padded_value)
  have n: "normalizeAmountString s = String_of (BigInt_of i) @ CHR ''.'' # g"
    using frac by (simp add: g_def)
  have c: "cents s = Inr (int (BigInt_of i * 100 + BigInt_of g))"
    using g tk
    by (simp add: cents_def Let_def n re_decimal_2_dotted String_of_digits String_of_nonempty
        int_frac_dotted BigInt_of_String_of)
  have "(of_int (int (BigInt_of i * 100 + BigInt_of g)) :: rat) = decimal_value s * 100"
    using frac(8) gv by (simp add: algebra_simps)
  with c show ?thesis by blast
qed

lemma cents_minor_units: "re_decimal_2 s \<Longrightarrow> cents s = Inr (minor_units s)"
proof -
  assume "re_decimal_2 s"
  then obtain c where c: "cents s = Inr c" "(of_int c :: rat) = decimal_value s * 100"
    using cents_value by blast
  then have "minor_units s = c"
    unfolding minor_units_def by (metis floor_of_int)
  with c show ?thesis by simp
qed

lemma balance_loop_sum:
  "list_all (\<lambda>l. re_decimal_2 (amount (line_amount l))) ls \<Longrightarrow>
   balance_loop acc ls = Inr (acc + (\<Sum>l\<leftarrow>ls. signed_minor l))"
  by (induction ls arbitrary: acc) (auto simp: cents_minor_units signed_minor_def)

text \<open>
  Claim C5. For lines whose amounts all have the valid decimal shape (digits, optionally a
  dot and one or two digits), \<open>cents\<close> of every amount is its exact integer number of
  minor units, \<open>assertBalanced\<close> succeeds exactly when the sum of these, positive for
  debit lines and negative for credit lines, is zero, and it throws "Journal not balanced"
  exactly when that sum is not zero. All arithmetic is on unbounded integers.
\<close>

theorem assertBalanced_iff_zero_sum:
  assumes "list_all (\<lambda>l. re_decimal_2 (amount (line_amount l))) ls"
  shows "(assertBalanced ls = Inr () \<longleftrightarrow> (\<Sum>l\<leftarrow>ls. signed_minor l) = 0)
       \<and> (assertBalanced ls = Inl JournalNotBalanced \<longleftrightarrow> (\<Sum>l\<leftarrow>ls. signed_minor l) \<noteq> 0)
       \<and> (\<forall>l \<in> set ls. cents (amount (line_amount l)) = Inr (minor_units (amount (line_amount l))))"
  using assms
  by (auto simp: assertBalanced_def balance_loop_sum cents_minor_units list_all_iff)

theorem assertBalanced_iff_zero_sum_witness:
  "assertBalanced
     [\<lparr>accountId = ''A'', fromBucket = Some Available, toBucket = Some Pending,
        line_side = Debit, line_amount = \<lparr>currency = ''USD'', amount = ''1.50''\<rparr>,
        line_transition = Reserve\<rparr>,
      \<lparr>accountId = ''B'', fromBucket = Some Available, toBucket = Some Escrow,
        line_side = Credit, line_amount = \<lparr>currency = ''USD'', amount = ''01.5''\<rparr>,
        line_transition = Lock\<rparr>] = Inr ()"
proof -
  let ?ls = "[\<lparr>accountId = ''A'', fromBucket = Some Available, toBucket = Some Pending,
        line_side = Debit, line_amount = \<lparr>currency = ''USD'', amount = ''1.50''\<rparr>,
        line_transition = Reserve\<rparr>,
      \<lparr>accountId = ''B'', fromBucket = Some Available, toBucket = Some Escrow,
        line_side = Credit, line_amount = \<lparr>currency = ''USD'', amount = ''01.5''\<rparr>,
        line_transition = Lock\<rparr>]"
  have shape: "list_all (\<lambda>l. re_decimal_2 (amount (line_amount l))) ?ls"
    by code_simp
  have zero: "(\<Sum>l\<leftarrow>?ls. signed_minor l) = 0"
    by code_simp
  from assertBalanced_iff_zero_sum [OF shape] zero show ?thesis
    by blast
qed




section \<open>Properties of the outbox dispatcher\<close>

lemma delayMs_mono: "delayMs k m \<le> delayMs (Suc k) m"
proof -
  have "(2::int) ^ (k - 1) \<le> 2 ^ k"
    by (rule power_increasing) simp_all
  then show ?thesis
    by (simp add: delayMs_def min_le_iff_disj)
qed

lemma delayMs_cap: "delayMs k m \<le> m"
  by (simp add: delayMs_def)

text \<open>
  Claim C7, as the code has it. When \<open>scheduleRetry\<close> succeeds, the item is pending
  again and its \<open>nextAttemptAt\<close> minus now is \<open>min(maxBackoffMs, 500 \<cdot> 2^(attempts - 1))\<close>,
  where \<open>attempts\<close> is the count after the increment; there is no jitter and the exponent
  is not capped at 10. Consequently the delay after one more failure is never smaller,
  and no delay exceeds \<open>maxBackoffMs\<close>. (\<open>computeBackoffMs\<close>, which has a jitter and a
  base of 100 ms, is never called.)
\<close>

theorem scheduleRetry_delay:
  "(scheduleRetry now obs doc maxBackoffMs = Inr obs' \<longrightarrow>
      (\<exists>d. find (\<lambda>x. ob_id x = ob_id doc) obs' = Some d
          \<and> ob_status d = OutboxPending
          \<and> ob_nextAttemptAt d - now = delayMs (ob_attempts doc + 1) maxBackoffMs
          \<and> ob_nextAttemptAt d - now = min maxBackoffMs (500 * 2 ^ ob_attempts doc)))
   \<and> delayMs k maxBackoffMs \<le> delayMs (Suc k) maxBackoffMs
   \<and> delayMs k maxBackoffMs \<le> maxBackoffMs"
proof -
  have "\<exists>d. find (\<lambda>x. ob_id x = ob_id doc) obs' = Some d
          \<and> ob_status d = OutboxPending
          \<and> ob_nextAttemptAt d - now = delayMs (ob_attempts doc + 1) maxBackoffMs
          \<and> ob_nextAttemptAt d - now = min maxBackoffMs (500 * 2 ^ ob_attempts doc)"
    if ok: "scheduleRetry now obs doc maxBackoffMs = Inr obs'"
  proof -
    let ?u = "\<lambda>d. d\<lparr>ob_status := OutboxPending,
        ob_nextAttemptAt := now + delayMs (ob_attempts doc + 1) maxBackoffMs,
        ob_updatedAt := now, ob_attempts := ob_attempts d + 1\<rparr>"
    obtain n where up: "updateOne (\<lambda>d. ob_id d = ob_id doc) ?u obs = (n, obs')" and n: "n = 1"
      using ok by (auto simp: scheduleRetry_def Let_def split: prod.splits if_splits)
    have "find (\<lambda>d. ob_id d = ob_id doc) obs' = map_option ?u (find (\<lambda>d. ob_id d = ob_id doc) obs)
        \<and> (n = 1 \<longleftrightarrow> find (\<lambda>d. ob_id d = ob_id doc) obs \<noteq> None)"
      by (rule updateOne_find [OF up]) simp
    with n show ?thesis
      by (auto simp: delayMs_def)
  qed
  then show ?thesis
    using delayMs_mono delayMs_cap by blast
qed

theorem scheduleRetry_delay_witness:
  "scheduleRetry 1000 [example_item OutboxProcessing 5] (example_item OutboxProcessing 5) 60000
     = Inr [(example_item OutboxPending 6)\<lparr>ob_nextAttemptAt := 17000, ob_updatedAt := 1000\<rparr>]
   \<and> delayMs 6 60000 = 16000 \<and> delayMs 5 60000 \<le> delayMs 6 60000"
proof -
  have run: "scheduleRetry 1000 [example_item OutboxProcessing 5] (example_item OutboxProcessing 5) 60000
     = Inr [(example_item OutboxPending 6)\<lparr>ob_nextAttemptAt := 17000, ob_updatedAt := 1000\<rparr>]"
    by (simp add: scheduleRetry_def delayMs_def example_item_def)
  have d: "delayMs 6 60000 = 16000"
    by (simp add: delayMs_def)
  from scheduleRetry_delay [of 1000 "[example_item OutboxProcessing 5]"
      "example_item OutboxProcessing 5" 60000
      "[(example_item OutboxPending 6)\<lparr>ob_nextAttemptAt := 17000, ob_updatedAt := 1000\<rparr>]" 5]
    run d
  show ?thesis
    by simp
qed

text \<open>
  The formula of claim C7 puts the first retry (attempt count 1 after the increment) at
  no less than \<open>min(500 \<cdot> 2^1, 60000) = 1000\<close> ms, the jitter being additive. The code
  schedules it 500 ms ahead.
\<close>

theorem scheduleRetry_first_delay_below_spec:
  "scheduleRetry 0 [example_item OutboxProcessing 0] (example_item OutboxProcessing 0) 60000
     = Inr [(example_item OutboxPending 1)\<lparr>ob_nextAttemptAt := 500\<rparr>]
   \<and> spec_backoff_base 1 60000 = 1000
   \<and> (500::int) - 0 < spec_backoff_base 1 60000"
  by (simp add: scheduleRetry_def delayMs_def example_item_def spec_backoff_base_def)

text \<open>
  \<open>claimOne\<close> and \<open>markSent\<close> filter on the status, so neither touches a document whose
  status is \<open>sent\<close>.
\<close>

lemma claimOne_keeps_sent:
  "d \<in> set obs \<Longrightarrow> ob_status d = OutboxSent \<Longrightarrow> d \<in> set (snd (claimOne now obs))"
  by (auto simp: claimOne_def claimable_def updateOne_keeps split: option.splits)

lemma markSent_keeps_sent:
  "markSent now obs ident = Inr obs' \<Longrightarrow> d \<in> set obs \<Longrightarrow> ob_status d = OutboxSent
   \<Longrightarrow> d \<in> set obs'"
proof -
  assume a: "markSent now obs ident = Inr obs'" "d \<in> set obs" "ob_status d = OutboxSent"
  let ?p = "\<lambda>d. ob_id d = ident \<and> ob_status d = OutboxProcessing"
  let ?u = "\<lambda>d. d\<lparr>ob_status := OutboxSent, ob_updatedAt := now, ob_attempts := ob_attempts d + 1\<rparr>"
  from a(1) have "obs' = snd (updateOne ?p ?u obs)"
    by (auto simp: markSent_def split: prod.splits if_splits)
  moreover from a(3) have "\<not> ?p d" by simp
  ultimately show ?thesis
    using a(2) updateOne_keeps [of d obs ?p ?u] by simp
qed

text \<open>
  In \<open>processOutbox\<close> run by one worker, \<open>scheduleRetry\<close> is only given the document
  just claimed, which was pending; with \<open>_id\<close> unique, a sent document is therefore
  still in the outbox, unchanged, when the run returns.
\<close>

lemma updateOne_keys:
  "(\<And>d. key (u d) = key d) \<Longrightarrow> map key (snd (updateOne p u xs)) = map key xs"
  by (induction xs) (auto split: prod.splits)

lemma first_in_sort_mem: "first_in_sort xs = Some d \<Longrightarrow> d \<in> set xs"
  by (induction xs arbitrary: d) (auto split: option.splits if_splits)

lemma claimOne_claimed:
  assumes "claimOne now obs = (Some doc, obs1)"
  shows "\<exists>c \<in> set obs. ob_status c = OutboxPending \<and> ob_id c = ob_id doc"
    and "map ob_id obs1 = map ob_id obs"
proof -
  from assms obtain c where c: "first_in_sort (filter (claimable now) obs) = Some c"
    and doc: "doc = c\<lparr>ob_status := OutboxProcessing, ob_updatedAt := now\<rparr>"
    and obs1: "obs1 = snd (updateOne (\<lambda>x. ob_id x = ob_id c \<and> claimable now x)
                  (\<lambda>x. x\<lparr>ob_status := OutboxProcessing, ob_updatedAt := now\<rparr>) obs)"
    by (auto simp: claimOne_def split: option.splits)
  from first_in_sort_mem [OF c] have "c \<in> set obs" "claimable now c" by auto
  with doc show "\<exists>c \<in> set obs. ob_status c = OutboxPending \<and> ob_id c = ob_id doc"
    by (auto simp: claimable_def)
  show "map ob_id obs1 = map ob_id obs"
    unfolding obs1 by (rule updateOne_keys) simp
qed

lemma scheduleRetry_keeps_other:
  assumes "scheduleRetry now obs doc m = Inr obs'" "d \<in> set obs" "ob_id d \<noteq> ob_id doc"
  shows "d \<in> set obs'" and "map ob_id obs' = map ob_id obs"
proof -
  let ?p = "\<lambda>x. ob_id x = ob_id doc"
  let ?u = "\<lambda>x. x\<lparr>ob_status := OutboxPending,
      ob_nextAttemptAt := now + delayMs (ob_attempts doc + 1) m,
      ob_updatedAt := now, ob_attempts := ob_attempts x + 1\<rparr>"
  from assms(1) have o: "obs' = snd (updateOne ?p ?u obs)"
    by (auto simp: scheduleRetry_def Let_def split: prod.splits if_splits)
  from assms(2,3) show "d \<in> set obs'"
    unfolding o by (intro updateOne_keeps) simp_all
  show "map ob_id obs' = map ob_id obs"
    unfolding o by (rule updateOne_keys) simp
qed

lemma markSent_keys: "markSent now obs ident = Inr obs' \<Longrightarrow> map ob_id obs' = map ob_id obs"
proof -
  assume "markSent now obs ident = Inr obs'"
  then have "obs' = snd (updateOne (\<lambda>d. ob_id d = ident \<and> ob_status d = OutboxProcessing)
      (\<lambda>d. d\<lparr>ob_status := OutboxSent, ob_updatedAt := now, ob_attempts := ob_attempts d + 1\<rparr>) obs)"
    by (auto simp: markSent_def split: prod.splits if_splits)
  then show ?thesis by (simp add: updateOne_keys)
qed

lemma processLoop_keeps_sent:
  "processLoop i dispatch now m obs counts = Inr (counts', obs') \<Longrightarrow> distinct (map ob_id obs)
   \<Longrightarrow> d \<in> set obs \<Longrightarrow> ob_status d = OutboxSent \<Longrightarrow> d \<in> set obs'"
proof (induction i arbitrary: obs counts)
  case 0
  then show ?case by simp
next
  case (Suc i)
  obtain a s r where counts: "counts = (a, s, r)" by (cases counts) auto
  show ?case
  proof (cases "claimOne now obs")
    case (Pair claimed obs1)
    show ?thesis
    proof (cases claimed)
      case None
      with Suc.prems Pair counts show ?thesis by simp
    next
      case (Some doc)
      with Pair have cl: "claimOne now obs = (Some doc, obs1)" by simp
      from claimOne_claimed [OF cl] obtain c where c: "c \<in> set obs" "ob_status c = OutboxPending"
        "ob_id c = ob_id doc" and keys1: "map ob_id obs1 = map ob_id obs" by blast
      from c Suc.prems(3,4) have "c \<noteq> d" by auto
      with c(1,3) Suc.prems(2,3) have other: "ob_id d \<noteq> ob_id doc"
        by (metis distinct_map inj_on_def)
      have d1: "d \<in> set obs1"
        using claimOne_keeps_sent [OF Suc.prems(3,4), of now] cl by simp
      have dist1: "distinct (map ob_id obs1)"
        using keys1 Suc.prems(2) by simp
      show ?thesis
      proof (cases "if dispatch doc then markSent now obs1 (ob_id doc) else Inl DispatchFailed")
        case (Inr obs2)
        then have ms: "markSent now obs1 (ob_id doc) = Inr obs2"
          by (auto split: if_splits)
        from Suc.prems(1) cl Inr counts have
          "processLoop i dispatch now m obs2 (a + 1, s + 1, r) = Inr (counts', obs')"
          by simp
        moreover have "distinct (map ob_id obs2)"
          using markSent_keys [OF ms] dist1 by simp
        moreover have "d \<in> set obs2"
          using markSent_keeps_sent [OF ms d1 Suc.prems(4)] .
        ultimately show ?thesis
          using Suc.IH Suc.prems(4) by blast
      next
        case (Inl e)
        with Suc.prems(1) cl counts obtain obs2 where
          sr: "scheduleRetry now obs1 doc m = Inr obs2" and
          rest: "processLoop i dispatch now m obs2 (a + 1, s, r + 1) = Inr (counts', obs')"
          by (auto split: sum.splits)
        from scheduleRetry_keeps_other [OF sr d1 other] dist1
        have "d \<in> set obs2" "distinct (map ob_id obs2)" by simp_all
        with rest show ?thesis
          using Suc.IH Suc.prems(4) by blast
      qed
    qed
  qed
qed

lemma processOutbox_keeps_sent:
  "processOutbox maxBatch m dispatch now obs = Inr (res, obs') \<Longrightarrow> distinct (map ob_id obs)
   \<Longrightarrow> d \<in> set obs \<Longrightarrow> ob_status d = OutboxSent \<Longrightarrow> d \<in> set obs'"
  by (auto simp: processOutbox_def split: sum.splits prod.splits dest: processLoop_keeps_sent)

text \<open>
  Claim C8 asks that no dispatcher operation changes the status of a sent item.
  \<open>scheduleRetry\<close>, an exported operation of its own, filters on \<open>_id\<close> only: called
  with a document whose stored status is \<open>sent\<close>, it sets the status back to
  \<open>pending\<close> and increments the attempts.
\<close>

theorem scheduleRetry_reopens_sent:
  "scheduleRetry 1000 [example_item OutboxSent 1] (example_item OutboxProcessing 0) 60000
     = Inr [(example_item OutboxPending 2)\<lparr>ob_nextAttemptAt := 1500, ob_updatedAt := 1000\<rparr>]"
  by (simp add: scheduleRetry_def delayMs_def example_item_def)

section \<open>Properties of journal posting\<close>

lemma buckets_nonneg_iff:
  "buckets_nonneg b \<longleftrightarrow> 0 \<le> b_available b \<and> 0 \<le> b_pending b \<and> 0 \<le> b_escrow b \<and> 0 \<le> b_outflow b"
  by (simp add: buckets_nonneg_def bucket_keys_def)

lemma get_bucket_apply_inc:
  "get_bucket (apply_inc inc b) k = inc_field inc k (get_bucket b k)"
  by (cases k) (simp_all add: apply_inc_def)

lemma inc_of_cases:
  "inc_of None None v = Map.empty"
  "inc_of (Some f) None v = [f \<mapsto> - v]"
  "inc_of None (Some t) v = [t \<mapsto> v]"
  "f \<noteq> t \<Longrightarrow> inc_of (Some f) (Some t) v = [f \<mapsto> - v, t \<mapsto> v]"
  by (simp_all add: inc_of_def)

lemma upsertAccount_ok:
  "list_all account_ok accs \<Longrightarrow> list_all account_ok (upsertAccount now aid cur accs)"
  by (simp add: upsertAccount_def account_ok_def buckets_nonneg_iff)

lemma guarded_update_ok:
  assumes p: "guard_predicate line v d" and ok: "account_ok d" and v: "0 \<le> v"
    and ne: "\<not> (fromBucket line \<noteq> None \<and> toBucket line \<noteq> None \<and> fromBucket line = toBucket line)"
  shows "account_ok (d\<lparr>acc_buckets := apply_inc (inc_of (fromBucket line) (toBucket line) v)
            (acc_buckets d), acc_updatedAt := Some now\<rparr>)"
proof (cases "acc_id d \<in> set SYSTEM_OVERDRAFT_ACCOUNTS")
  case True
  then show ?thesis by (simp add: account_ok_def)
next
  case False
  with ok have nn: "\<And>k. 0 \<le> get_bucket (acc_buckets d) k"
    by (simp add: account_ok_def buckets_nonneg_def bucket_keys_def) (metis bucket.exhaust get_bucket.simps)
  from p False have g: "\<And>f. fromBucket line = Some f \<Longrightarrow> v \<le> get_bucket (acc_buckets d) f"
    by (auto simp: guard_predicate_def Let_def split: if_splits)
  have "0 \<le> get_bucket (apply_inc (inc_of (fromBucket line) (toBucket line) v) (acc_buckets d)) k" for k
  proof (cases "fromBucket line")
    case None
    then show ?thesis
      using nn[of k] v
      by (cases "toBucket line") (auto simp: get_bucket_apply_inc inc_of_cases inc_field_def)
  next
    case (Some f)
    show ?thesis
    proof (cases "toBucket line")
      case None
      with Some show ?thesis
        using nn[of k] g[of f]
        by (auto simp: get_bucket_apply_inc inc_of_cases inc_field_def)
    next
      case (Some t)
      with \<open>fromBucket line = Some f\<close> ne have "f \<noteq> t" by auto
      with Some \<open>fromBucket line = Some f\<close> show ?thesis
        using nn[of k] g[of f] v
        by (auto simp: get_bucket_apply_inc inc_of_cases inc_field_def)
    qed
  qed
  then show ?thesis
    by (simp add: account_ok_def buckets_nonneg_def bucket_keys_def)
qed

lemma applyLineAtomic_frame:
  "applyLineAtomic now db line = Inr db' \<Longrightarrow> db' = db\<lparr>accounts := accounts db'\<rparr>"
  by (auto simp: applyLineAtomic_def Let_def split: option.splits if_splits prod.splits)

lemma applyLineAtomic_ok:
  assumes "applyLineAtomic now db line = Inr db'" "list_all account_ok (accounts db)"
  shows "list_all account_ok (accounts db')"
proof -
  from assms(1) obtain v where v: "Number_of (amount (line_amount line)) = Some v" "0 \<le> v"
    by (auto simp: applyLineAtomic_def split: option.splits if_splits)
  let ?accs1 = "upsertAccount now (accountId line) (currency (line_amount line)) (accounts db)"
  have a1: "list_all account_ok ?accs1"
    using assms(2) by (rule upsertAccount_ok)
  show ?thesis
  proof (cases "fromBucket line \<noteq> None \<and> toBucket line \<noteq> None \<and> fromBucket line = toBucket line")
    case True
    with assms(1) v have "accounts db' =
        snd (updateOne (\<lambda>d. acc_id d = accountId line)
               (\<lambda>d. d\<lparr>acc_updatedAt := Some now, acc_lastTxHint := Some ''noop''\<rparr>) ?accs1)"
      by (auto simp: applyLineAtomic_def Let_def)
    then show ?thesis
      using a1 by (auto intro!: updateOne_all simp: account_ok_def)
  next
    case False
    with assms(1) v have "accounts db' =
        snd (updateOne (guard_predicate line v)
               (\<lambda>d. d\<lparr>acc_buckets := apply_inc (inc_of (fromBucket line) (toBucket line) v)
                         (acc_buckets d), acc_updatedAt := Some now\<rparr>) ?accs1)"
      by (auto simp: applyLineAtomic_def Let_def split: prod.splits if_splits)
    then show ?thesis
      using a1 v(2) False by (auto intro!: updateOne_all guarded_update_ok)
  qed
qed

lemma applyLines_frame:
  "applyLines now jid n aff ls db = Inr (aff', db') \<Longrightarrow>
   journals db' = journals db \<and> outbox db' = outbox db
   \<and> ledger_entries db' = ledger_entries db @ entries_for now jid n ls"
proof (induction ls arbitrary: n aff db)
  case Nil
  then show ?case by simp
next
  case (Cons line rest)
  from Cons.prems obtain db1 where
    l: "applyLineAtomic now db line = Inr db1" and
    r: "applyLines now jid (n + 1)
          (if accountId line \<in> set aff then aff else aff @ [accountId line]) rest
          (appendLedgerEntry now db1 jid (n + 1) line) = Inr (aff', db')"
    by (auto split: sum.splits)
  from applyLineAtomic_frame [OF l] have f:
    "journals db1 = journals db" "outbox db1 = outbox db" "ledger_entries db1 = ledger_entries db"
    by (metis Db.select_convs Db.surjective Db.update_convs(1))+
  from Cons.IH [OF r] f show ?case
    by (simp add: appendLedgerEntry_def)
qed

lemma applyLines_ok:
  "applyLines now jid n aff ls db = Inr (aff', db') \<Longrightarrow> list_all account_ok (accounts db)
   \<Longrightarrow> list_all account_ok (accounts db')"
proof (induction ls arbitrary: n aff db)
  case Nil
  then show ?case by simp
next
  case (Cons line rest)
  from Cons.prems(1) obtain db1 where
    l: "applyLineAtomic now db line = Inr db1" and
    r: "applyLines now jid (n + 1)
          (if accountId line \<in> set aff then aff else aff @ [accountId line]) rest
          (appendLedgerEntry now db1 jid (n + 1) line) = Inr (aff', db')"
    by (auto split: sum.splits)
  have "list_all account_ok (accounts (appendLedgerEntry now db1 jid (n + 1) line))"
    using applyLineAtomic_ok [OF l Cons.prems(2)] by (simp add: appendLedgerEntry_def)
  with Cons.IH [OF r] show ?case .
qed

lemma createJournalHeader_fresh:
  "findExistingJournal db parsed = None \<Longrightarrow>
   createJournalHeader now db parsed =
     Inr (db\<lparr>journals := journals db @ [new_header now parsed JournalPending]\<rparr>)"
  by (auto simp: findExistingJournal_def createJournalHeader_def new_header_def find_None_iff
      list_ex_iff)

lemma markJournalPosted_fresh:
  assumes "findExistingJournal db parsed = None"
    and "journals db2 = journals db @ [new_header now parsed JournalPending]"
  shows "journals (markJournalPosted db2 (journalId parsed)) =
     journals db @ [new_header now parsed JournalPosted]"
proof -
  from assms(1) have "\<not> list_ex (\<lambda>j. jd_journalId j = journalId parsed) (journals db)"
    by (auto simp: findExistingJournal_def find_None_iff list_ex_iff)
  then have "updateOne (\<lambda>j. jd_journalId j = journalId parsed) (\<lambda>j. j\<lparr>jd_status := JournalPosted\<rparr>)
      (journals db @ [new_header now parsed JournalPending])
    = (1, journals db @ [(new_header now parsed JournalPending)\<lparr>jd_status := JournalPosted\<rparr>])"
    by (rule updateOne_append_new) (simp add: new_header_def)
  with assms(2) show ?thesis
    by (simp add: markJournalPosted_def new_header_def)
qed

lemma postJournal_cases:
  assumes "postJournal e db input = (res, db')"
  obtains (rejected) err where "res = Inl err" "db' = db"
  | (hit) parsed existing where
      "JournalSchema_parse input = Inr parsed" "preflightValidate parsed = Inr ()"
      "findExistingJournal db parsed = Some existing"
      "res = Inr (jd_journalId existing)" "db' = db"
  | (posted) parsed affected db2 where
      "JournalSchema_parse input = Inr parsed" "preflightValidate parsed = Inr ()"
      "findExistingJournal db parsed = None" "\<not> env_chaos e"
      "applyLines (env_now e) (journalId parsed) 0 [] (lines parsed)
         (db\<lparr>journals := journals db @ [new_header (env_now e) parsed JournalPending]\<rparr>)
       = Inr (affected, db2)"
      "assertNoNegativeBuckets db2 affected = Inr ()"
      "res = Inr (journalId parsed)"
      "db' = markJournalPosted (enqueueOutboxPosted (env_now e) db2 (journalId parsed))
               (journalId parsed)"
proof (cases "JournalSchema_parse input")
  case (Inl err)
  with assms show ?thesis by (intro rejected[of err]) (auto simp: postJournal_def)
next
  case (Inr parsed)
  note parse = this
  show ?thesis
  proof (cases "preflightValidate parsed")
    case (Inl err)
    with assms parse show ?thesis by (intro rejected[of err]) (auto simp: postJournal_def)
  next
    case (Inr u)
    then have pre: "preflightValidate parsed = Inr ()" by simp
    show ?thesis
    proof (cases "findExistingJournal db parsed")
      case (Some existing)
      with assms parse pre show ?thesis
        by (intro hit[of parsed existing])
          (auto simp: postJournal_def withTransaction_def postJournal_body_def)
    next
      case None
      note probe = this
      let ?db1 = "db\<lparr>journals := journals db @ [new_header (env_now e) parsed JournalPending]\<rparr>"
      have hdr: "createJournalHeader (env_now e) db parsed = Inr ?db1"
        using probe by (rule createJournalHeader_fresh)
      show ?thesis
      proof (cases "applyLines (env_now e) (journalId parsed) 0 [] (lines parsed) ?db1")
        case (Inl err)
        with assms parse pre probe hdr show ?thesis
          by (intro rejected[of err])
            (auto simp: postJournal_def withTransaction_def postJournal_body_def)
      next
        case (Inr r)
        then obtain affected db2 where
          ap: "applyLines (env_now e) (journalId parsed) 0 [] (lines parsed) ?db1 = Inr (affected, db2)"
          by (cases r) auto
        show ?thesis
        proof (cases "assertNoNegativeBuckets db2 affected")
          case (Inl err)
          with assms parse pre probe hdr ap show ?thesis
            by (intro rejected[of err])
              (auto simp: postJournal_def withTransaction_def postJournal_body_def)
        next
          case (Inr u2)
          then have sw: "assertNoNegativeBuckets db2 affected = Inr ()" by simp
          show ?thesis
          proof (cases "env_chaos e")
            case True
            with assms parse pre probe hdr ap sw show ?thesis
              by (intro rejected[of ChaosFailure])
                (auto simp: postJournal_def withTransaction_def postJournal_body_def)
          next
            case False
            with assms parse pre probe hdr ap sw show ?thesis
              by (intro posted[of parsed affected db2])
                (auto simp: postJournal_def withTransaction_def postJournal_body_def Let_def)
          qed
        qed
      qed
    qed
  qed
qed

lemma find_snoc:
  "find P (xs @ [y]) = (case find P xs of None \<Rightarrow> (if P y then Some y else None) | Some x \<Rightarrow> Some x)"
  by (induction xs) auto

lemma sweep_ok: "sweep docs = Inr () \<Longrightarrow> list_all account_ok docs"
proof (induction docs)
  case Nil
  then show ?case by simp
next
  case (Cons doc docs)
  show ?case
  proof (cases "acc_id doc \<in> set SYSTEM_OVERDRAFT_ACCOUNTS")
    case True
    with Cons show ?thesis by (simp add: account_ok_def)
  next
    case False
    with Cons.prems have n: "find (\<lambda>k. get_bucket (acc_buckets doc) k < 0) bucket_keys = None"
      and r: "sweep docs = Inr ()"
      by (auto split: option.splits)
    from n have "buckets_nonneg (acc_buckets doc)"
      by (auto simp: find_None_iff buckets_nonneg_def list_all_iff)
    with Cons.IH [OF r] show ?thesis by (simp add: account_ok_def)
  qed
qed

lemma assertNoNegativeBuckets_ok:
  "assertNoNegativeBuckets db ids = Inr () \<Longrightarrow> d \<in> set (accounts db) \<Longrightarrow> acc_id d \<in> set ids
   \<Longrightarrow> account_ok d"
  by (auto simp: assertNoNegativeBuckets_def list_all_iff split: if_splits dest!: sweep_ok)

lemma posted_store:
  assumes probe: "findExistingJournal db parsed = None"
    and ap: "applyLines now (journalId parsed) 0 [] (lines parsed)
         (db\<lparr>journals := journals db @ [new_header now parsed JournalPending]\<rparr>)
       = Inr (affected, db2)"
    and db': "db' = markJournalPosted (enqueueOutboxPosted now db2 (journalId parsed))
               (journalId parsed)"
  shows "journals db' = journals db @ [new_header now parsed JournalPosted]"
    and "ledger_entries db' = ledger_entries db @ entries_for now (journalId parsed) 0 (lines parsed)"
    and "outbox db' = outbox db @ [new_outbox_item now (outbox db) (journalId parsed)]"
    and "accounts db' = accounts db2"
proof -
  from applyLines_frame [OF ap] have f:
    "journals db2 = journals db @ [new_header now parsed JournalPending]"
    "outbox db2 = outbox db"
    "ledger_entries db2 = ledger_entries db @ entries_for now (journalId parsed) 0 (lines parsed)"
    by simp_all
  have "journals (enqueueOutboxPosted now db2 (journalId parsed)) =
      journals db @ [new_header now parsed JournalPending]"
    using f(1) by (simp add: enqueueOutboxPosted_def)
  from markJournalPosted_fresh [OF probe this] db'
  show "journals db' = journals db @ [new_header now parsed JournalPosted]" by simp
  show "ledger_entries db' = ledger_entries db @ entries_for now (journalId parsed) 0 (lines parsed)"
    using f(3) db' by (simp add: markJournalPosted_def enqueueOutboxPosted_def)
  show "outbox db' = outbox db @ [new_outbox_item now (outbox db) (journalId parsed)]"
    using f(2) db' by (simp add: markJournalPosted_def enqueueOutboxPosted_def new_outbox_item_def)
  show "accounts db' = accounts db2"
    using db' by (simp add: markJournalPosted_def enqueueOutboxPosted_def)
qed

lemma postJournal_replay:
  assumes "postJournal e db input = (Inr r, db1)"
  shows "postJournal e' db1 input = (Inr r, db1)"
  using assms
proof (cases rule: postJournal_cases)
  case (rejected err)
  then show ?thesis by simp
next
  case (hit parsed existing)
  then show ?thesis
    by (simp add: postJournal_def withTransaction_def postJournal_body_def)
next
  case (posted parsed affected db2)
  have j: "journals db1 = journals db @ [new_header (env_now e) parsed JournalPosted]"
    using posted(3,5,8) by (rule posted_store(1))
  have "findExistingJournal db1 parsed = Some (new_header (env_now e) parsed JournalPosted)"
    using posted(3) by (simp add: findExistingJournal_def j find_snoc new_header_def)
  with posted show ?thesis
    by (simp add: postJournal_def withTransaction_def postJournal_body_def new_header_def)
qed






text \<open>
  Claim C3. Starting from a store in which every bucket of every account outside
  \<open>SYSTEM_OVERDRAFT_ACCOUNTS\<close> (that is, outside \<open>ESCROW_POOL\<close>) is at least zero, the
  store that \<open>postJournal\<close> leaves satisfies the same invariant, whether the call
  succeeds or fails: the guarded update never takes more from a bucket than it holds and
  never adds a negative amount. The sweep after the lines checks the touched accounts
  once more (\<open>assertNoNegativeBuckets_ok\<close>).
\<close>

theorem postJournal_keeps_balances_nonnegative:
  assumes "no_negative_balances db" and "postJournal e db input = (res, db')"
  shows "no_negative_balances db'"
  using assms(2)
proof (cases rule: postJournal_cases)
  case (rejected err)
  with assms(1) show ?thesis by simp
next
  case (hit parsed existing)
  with assms(1) show ?thesis by simp
next
  case (posted parsed affected db2)
  have "list_all account_ok (accounts db2)"
    using posted(5) by (rule applyLines_ok) (use assms(1) in \<open>simp add: no_negative_balances_def\<close>)
  moreover have "accounts db' = accounts db2"
    using posted(3,5,8) by (rule posted_store(4))
  ultimately show ?thesis by (simp add: no_negative_balances_def)
qed

theorem postJournal_keeps_balances_nonnegative_witness:
  "no_negative_balances example_db
   \<and> fst (postJournal example_env example_db (example_journal ''J1'' ''k1'' ''A'' ''B'')) = Inr ''J1''
   \<and> no_negative_balances
        (snd (postJournal example_env example_db (example_journal ''J1'' ''k1'' ''A'' ''B'')))"
proof -
  have h: "no_negative_balances example_db"
    by code_simp
  have run: "fst (postJournal example_env example_db (example_journal ''J1'' ''k1'' ''A'' ''B'')) = Inr ''J1''"
    by code_simp
  from postJournal_keeps_balances_nonnegative [OF h, of example_env
      "example_journal ''J1'' ''k1'' ''A'' ''B''"
      "fst (postJournal example_env example_db (example_journal ''J1'' ''k1'' ''A'' ''B''))"
      "snd (postJournal example_env example_db (example_journal ''J1'' ''k1'' ''A'' ''B''))"]
    h run
  show ?thesis by (simp add: prod_eq_iff)
qed

text \<open>
  Claim C2. Once a call of \<open>postJournal\<close> has succeeded, every further call with the
  identical body, whatever its clock reading and chaos outcome, returns success with the
  same journal id and leaves the whole store as it was: the accounts' buckets and the
  ledger entries after N calls are those after one call.
\<close>

theorem postJournal_idempotent:
  assumes "postJournal e db input = (Inr r, db1)"
  shows "post_repeat es db1 input = (replicate (length es) (Inr r), db1)"
proof (induction es)
  case Nil
  show ?case by simp
next
  case (Cons e' es)
  from postJournal_replay [OF assms] have "postJournal e' db1 input = (Inr r, db1)" .
  with Cons show ?case by simp
qed

theorem postJournal_idempotent_witness:
  "postJournal example_env example_db (example_journal ''J1'' ''k1'' ''A'' ''B'')
     = (Inr ''J1'', example_db_posted)
   \<and> post_repeat [example_env, example_env\<lparr>env_now := 9, env_chaos := True\<rparr>] example_db_posted
        (example_journal ''J1'' ''k1'' ''A'' ''B'')
     = ([Inr ''J1'', Inr ''J1''], example_db_posted)"
proof -
  have "fst (postJournal example_env example_db (example_journal ''J1'' ''k1'' ''A'' ''B'')) = Inr ''J1''"
    by code_simp
  then have run: "postJournal example_env example_db (example_journal ''J1'' ''k1'' ''A'' ''B'')
     = (Inr ''J1'', example_db_posted)"
    by (simp add: example_db_posted_def prod_eq_iff)
  from postJournal_idempotent [OF run,
      of "[example_env, example_env\<lparr>env_now := 9, env_chaos := True\<rparr>]"] run
  show ?thesis by simp
qed

text \<open>
  Claim C1, as the code has it. When \<open>postJournal\<close> fails the store is unchanged. When it
  succeeds, either a journal with the same idempotency key or the same journal id was
  already there, the id returned is that journal's and the store is unchanged; or no such
  journal was there, and the store has gained, together, the header with status posted,
  one ledger entry per line, one pending outbox item, and the accounts left by applying
  every line in order.
\<close>

theorem postJournal_all_or_nothing:
  assumes "postJournal e db input = (res, db')"
  shows "(\<forall>err. res = Inl err \<longrightarrow> db' = db)
    \<and> (\<forall>r. res = Inr r \<longrightarrow>
         (\<exists>parsed. JournalSchema_parse input = Inr parsed \<and>
            ((\<exists>existing. findExistingJournal db parsed = Some existing
                  \<and> r = jd_journalId existing \<and> db' = db)
             \<or> (findExistingJournal db parsed = None \<and> r = journalId parsed
                 \<and> journals db' = journals db @ [new_header (env_now e) parsed JournalPosted]
                 \<and> ledger_entries db' =
                     ledger_entries db @ entries_for (env_now e) (journalId parsed) 0 (lines parsed)
                 \<and> outbox db' =
                     outbox db @ [new_outbox_item (env_now e) (outbox db) (journalId parsed)]
                 \<and> (\<exists>affected db2.
                       applyLines (env_now e) (journalId parsed) 0 [] (lines parsed)
                         (db\<lparr>journals := journals db @
                              [new_header (env_now e) parsed JournalPending]\<rparr>)
                         = Inr (affected, db2)
                       \<and> accounts db' = accounts db2)))))"
  using assms
proof (cases rule: postJournal_cases)
  case (rejected err)
  then show ?thesis by simp
next
  case (hit parsed existing)
  then show ?thesis by simp
next
  case (posted parsed affected db2)
  note st = posted_store [OF posted(3,5,8)]
  from posted st show ?thesis by auto
qed

theorem postJournal_all_or_nothing_witness:
  "fst (postJournal example_env example_db (example_journal ''J1'' ''k1'' ''A'' ''B'')) = Inr ''J1''
   \<and> outbox example_db_posted = outbox example_db @ [new_outbox_item 5 [] ''J1'']
   \<and> fst (postJournal (example_env\<lparr>env_chaos := True\<rparr>) example_db
            (example_journal ''J1'' ''k1'' ''A'' ''B'')) = Inl ChaosFailure
   \<and> snd (postJournal (example_env\<lparr>env_chaos := True\<rparr>) example_db
            (example_journal ''J1'' ''k1'' ''A'' ''B'')) = example_db"
proof -
  let ?j = "example_journal ''J1'' ''k1'' ''A'' ''B''"
  have run: "fst (postJournal example_env example_db ?j) = Inr ''J1''"
    by code_simp
  have fail: "fst (postJournal (example_env\<lparr>env_chaos := True\<rparr>) example_db ?j) = Inl ChaosFailure"
    by code_simp
  have ob: "outbox example_db_posted = outbox example_db @ [new_outbox_item 5 [] ''J1'']"
    by code_simp
  from postJournal_all_or_nothing [of "example_env\<lparr>env_chaos := True\<rparr>" example_db ?j
      "fst (postJournal (example_env\<lparr>env_chaos := True\<rparr>) example_db ?j)"
      "snd (postJournal (example_env\<lparr>env_chaos := True\<rparr>) example_db ?j)"] fail
  have "snd (postJournal (example_env\<lparr>env_chaos := True\<rparr>) example_db ?j) = example_db"
    by (simp add: prod_eq_iff)
  with run fail ob show ?thesis by simp
qed

text \<open>
  A successful call that writes nothing of its own: after journal \<open>J1\<close> was posted with
  key \<open>k1\<close>, posting journal \<open>J2\<close> under the same key succeeds and returns \<open>J1\<close>. The
  store has no header, no ledger entry and no outbox item for \<open>J2\<close>, and the buckets of
  the accounts are those left by \<open>J1\<close> alone.
\<close>

theorem postJournal_hit_writes_nothing:
  "postJournal example_env example_db_posted (example_journal ''J2'' ''k1'' ''A'' ''B'')
     = (Inr ''J1'', example_db_posted)
   \<and> map jd_journalId (journals example_db_posted) = [''J1'']
   \<and> map le_journalId (ledger_entries example_db_posted) = [''J1'', ''J1'']
   \<and> map ob_journalId (outbox example_db_posted) = [''J1'']
   \<and> map acc_buckets (accounts example_db_posted) =
       [\<lparr>b_available = 90, b_pending = 10, b_escrow = 0, b_outflow = 0\<rparr>,
        \<lparr>b_available = 90, b_pending = 0, b_escrow = 10, b_outflow = 0\<rparr>]"
proof -
  have a: "fst (postJournal example_env example_db_posted (example_journal ''J2'' ''k1'' ''A'' ''B''))
      = Inr ''J1''"
    by code_simp
  have b: "snd (postJournal example_env example_db_posted (example_journal ''J2'' ''k1'' ''A'' ''B''))
      = example_db_posted"
    by code_simp
  have c: "map jd_journalId (journals example_db_posted) = [''J1'']"
    "map le_journalId (ledger_entries example_db_posted) = [''J1'', ''J1'']"
    "map ob_journalId (outbox example_db_posted) = [''J1'']"
    "map acc_buckets (accounts example_db_posted) =
       [\<lparr>b_available = 90, b_pending = 10, b_escrow = 0, b_outflow = 0\<rparr>,
        \<lparr>b_available = 90, b_pending = 0, b_escrow = 10, b_outflow = 0\<rparr>]"
    by code_simp+
  from a b c show ?thesis by (simp add: prod_eq_iff)
qed




end
